theory Spec2Isabelle
  imports Complex_Main
begin

section \<open>Python values used by the QA system\<close>

text \<open>
  Text is a list of characters; a character stands for a code point below 256, so
  \<open>len\<close> is \<open>length\<close>. Python's \<open>int\<close> is \<open>int\<close>.
\<close>

definition py_isspace :: "char \<Rightarrow> bool" where
  \<comment> \<open>\<open>str.isspace\<close> on one code point: TAB..CR, FS..US, space, NEL and NBSP.\<close>
  "py_isspace c = (let n = (of_char c :: nat) in
     (9 \<le> n \<and> n \<le> 13) \<or> (28 \<le> n \<and> n \<le> 32) \<or> n = 133 \<or> n = 160)"

definition py_strip :: "string \<Rightarrow> string" where
  \<comment> \<open>\<open>s.strip()\<close>: whitespace removed at both ends.\<close>
  "py_strip s = rev (dropWhile py_isspace (rev (dropWhile py_isspace s)))"

definition py_lower_char :: "char \<Rightarrow> char" where
  \<comment> \<open>\<open>str.lower\<close> on one code point: A..Z and the Latin-1 capitals (not the times sign).\<close>
  "py_lower_char c = (let n = (of_char c :: nat) in
     if (65 \<le> n \<and> n \<le> 90) \<or> (192 \<le> n \<and> n \<le> 222 \<and> n \<noteq> 215)
     then char_of (n + 32) else c)"

definition py_lower :: "string \<Rightarrow> string" where
  "py_lower s = map py_lower_char s"

fun startswith :: "string \<Rightarrow> string \<Rightarrow> bool" where
  \<comment> \<open>\<open>s.startswith(p)\<close>\<close>
  "startswith s [] = True"
| "startswith [] (p # ps) = False"
| "startswith (c # cs) (p # ps) = (c = p \<and> startswith cs ps)"

definition endswith :: "string \<Rightarrow> string \<Rightarrow> bool" where
  \<comment> \<open>\<open>s.endswith(p)\<close>\<close>
  "endswith s p = startswith (rev s) (rev p)"

fun py_in :: "string \<Rightarrow> string \<Rightarrow> bool" where
  \<comment> \<open>\<open>sub in s\<close>: \<open>sub\<close> occurs in \<open>s\<close> as a contiguous substring.\<close>
  "py_in sub [] = (sub = [])"
| "py_in sub (c # cs) = (startswith (c # cs) sub \<or> py_in sub cs)"

subsection \<open>Floats\<close>

text \<open>
  Python's \<open>float\<close> is an IEEE 754 double. A float is represented by the real number
  that it denotes, and a float operation returns the exact result rounded to the nearest
  double, ties going to the even significand of 53 bits: \<open>to_double\<close>. A literal such
  as \<open>0.4\<close> is \<open>to_double (2 / 5)\<close>. The exponent is not bounded, so overflow and
  subnormal numbers are left out. Where the program only compares a float with a count
  (the thresholds of the answer evaluator, the rates of the trend analysis), the
  operations are written without the rounding.
\<close>

function ilog2 :: "int \<Rightarrow> int" where
  \<comment> \<open>the position of the leading bit of a positive integer\<close>
  "ilog2 n = (if n < 2 then 0 else 1 + ilog2 (n div 2))"
  by auto
termination by (relation "measure nat") auto

declare ilog2.simps [simp del]

definition pow2 :: "int \<Rightarrow> real" where
  "pow2 e = (if 0 \<le> e then 2 ^ nat e else 1 / 2 ^ nat (- e))"

definition binade :: "real \<Rightarrow> int" where
  \<comment> \<open>the exponent \<open>e\<close> with \<open>2 ^ e \<le> |x| < 2 ^ (e + 1)\<close>, for \<open>x \<noteq> 0\<close>\<close>
  "binade x = (let a = \<bar>x\<bar>
               in if 1 \<le> a then ilog2 \<lfloor>a\<rfloor>
                  else - (1 + ilog2 (\<lceil>1 / a\<rceil> - 1)))"

definition round_half_even :: "real \<Rightarrow> int" where
  "round_half_even y =
     (let f = \<lfloor>y\<rfloor>; d = y - of_int f
      in if d < 1 / 2 then f
         else if 1 / 2 < d then f + 1
         else if even f then f else f + 1)"

definition to_double :: "real \<Rightarrow> real" where
  "to_double x =
     (if x = 0 then 0
      else of_int (round_half_even (x * pow2 (52 - binade x))) * pow2 (binade x - 52))"

definition float_of_int :: "int \<Rightarrow> real" where
  \<comment> \<open>the conversion of an \<open>int\<close> operand of a float operation\<close>
  "float_of_int n = to_double (of_int n)"

definition fadd :: "real \<Rightarrow> real \<Rightarrow> real" where
  "fadd a b = to_double (a + b)"

definition fsub :: "real \<Rightarrow> real \<Rightarrow> real" where
  "fsub a b = to_double (a - b)"

definition fmul :: "real \<Rightarrow> real \<Rightarrow> real" where
  "fmul a b = to_double (a * b)"

definition fdiv :: "real \<Rightarrow> real \<Rightarrow> real" where
  "fdiv a b = to_double (a / b)"

definition int_truediv :: "int \<Rightarrow> int \<Rightarrow> real" where
  \<comment> \<open>\<open>a / b\<close> on two \<open>int\<close>s: the quotient, correctly rounded\<close>
  "int_truediv a b = to_double (of_int a / of_int b)"

definition py_sum :: "real list \<Rightarrow> real" where
  \<comment> \<open>\<open>sum(xs)\<close> on floats: added to 0 from left to right\<close>
  "py_sum xs = foldl fadd 0 xs"

definition py_int :: "real \<Rightarrow> int" where
  \<comment> \<open>\<open>int(x)\<close> on a float: truncation toward zero.\<close>
  "py_int x = (if 0 \<le> x then \<lfloor>x\<rfloor> else \<lceil>x\<rceil>)"

section \<open>Answer evaluation (api/routers/questions.py)\<close>

datatype QuestionType = MULTIPLE_CHOICE | SINGLE_CHOICE | ESSAY | SHORT_ANSWER

datatype DifficultyLevel = EASY | MEDIUM | HARD

text \<open>
  The \<open>keywords\<close> column is nullable JSON. The generator stores a list of strings; any
  other JSON value is kept with its truth value only, which is all the evaluator reads.
\<close>

datatype keywords_json = KwNull | KwList "string list" | KwOther bool

record Question =
  question_id :: int
  question_type :: QuestionType
  correct_answer :: string
  explanation :: "string option"
  question_keywords :: keywords_json
  usage_count :: int
  correct_rate :: "int option"

fun truthy_keywords :: "keywords_json \<Rightarrow> bool" where
  \<comment> \<open>\<open>if question.keywords:\<close>\<close>
  "truthy_keywords KwNull = False"
| "truthy_keywords (KwList ks) = (ks \<noteq> [])"
| "truthy_keywords (KwOther b) = b"

fun get_keywords_list :: "keywords_json \<Rightarrow> string list" where
  \<comment> \<open>\<open>Question.get_keywords_list\<close>: the value if it is truthy and a list, else \<open>[]\<close>.\<close>
  "get_keywords_list (KwList ks) = ks"
| "get_keywords_list _ = []"

definition count_matches :: "string list \<Rightarrow> string \<Rightarrow> nat" where
  \<comment> \<open>\<open>sum(1 for kw in keywords if kw in student_answer)\<close>\<close>
  "count_matches kws student_answer =
     sum_list (map (\<lambda>kw. 1) (filter (\<lambda>kw. py_in kw student_answer) kws))"

definition evaluate_answer :: "Question \<Rightarrow> string \<Rightarrow> bool" where
  "evaluate_answer question response_text =
    (if question_type question \<in> {MULTIPLE_CHOICE, SINGLE_CHOICE} then
       py_lower (py_strip response_text) = py_lower (py_strip (correct_answer question))
     else if question_type question = SHORT_ANSWER then
       (let correct = py_lower (py_strip (correct_answer question));
            student_answer = py_lower (py_strip response_text)
        in if truthy_keywords (question_keywords question) then
             (let kws = map py_lower (get_keywords_list (question_keywords question));
                  matches = count_matches kws student_answer
              in real matches \<ge> real (length kws) * 0.5)
           else py_in correct student_answer \<or> py_in student_answer correct)
     else
       (if truthy_keywords (question_keywords question) then
          (let kws = map py_lower (get_keywords_list (question_keywords question));
               student_answer = py_lower (py_strip response_text);
               matches = count_matches kws student_answer
           in real matches \<ge> max 1 (real (length kws) * 0.3))
        else length (py_strip response_text) \<ge> 50))"

record StudentResponse =
  response_question_id :: int
  student_id :: string
  response_text :: string
  is_correct :: "bool option"
  score :: "real option"
  response_time :: "int option"
  confidence_level :: "int option"
  submitted_at :: nat

text \<open>
  The database session. \<open>SessionLocal\<close> is made with \<open>autoflush=False\<close>
  (models/base.py), so a query reads the rows of the database and not the objects added
  since the last flush; \<open>commit\<close> flushes them. The timestamp that the database
  gives a new row is passed in as \<open>now\<close>.
\<close>

record Session =
  question_rows :: "Question list"
  response_rows :: "StudentResponse list"
  pending :: "StudentResponse list"

datatype HTTPException = HTTP_404 | HTTP_500

record AnswerReply =
  reply_is_correct :: bool
  reply_score :: real
  reply_explanation :: "string option"

definition update_correct_rate :: "Question \<Rightarrow> Session \<Rightarrow> Question" where
  "update_correct_rate question db =
    (let responses = filter (\<lambda>r. response_question_id r = question_id question
                                 \<and> is_correct r \<noteq> None) (response_rows db)
     in if responses \<noteq> [] then
          (let correct_count = sum_list (map (\<lambda>r. 1) (filter (\<lambda>r. is_correct r = Some True) responses));
               total_count = int (length responses)
           in question\<lparr>correct_rate :=
                Some (py_int (fmul (int_truediv correct_count total_count) (float_of_int 100)))\<rparr>)
        else question)"

definition commit :: "Session \<Rightarrow> Question \<Rightarrow> Session" where
  "commit db question =
     db\<lparr>question_rows := map (\<lambda>q. if question_id q = question_id question then question else q)
                             (question_rows db),
        response_rows := response_rows db @ pending db,
        pending := []\<rparr>"

definition submit_answer ::
  "Session \<Rightarrow> int \<Rightarrow> string \<Rightarrow> string \<Rightarrow> int option \<Rightarrow> int option \<Rightarrow> nat
     \<Rightarrow> HTTPException + (Session \<times> AnswerReply)" where
  "submit_answer db qid sid text rtime conf now =
    (case find (\<lambda>q. question_id q = qid) (question_rows db) of
       None \<Rightarrow> Inl HTTP_404
     | Some question \<Rightarrow>
        (let correct = evaluate_answer question text;
             sc = (if correct then 100 else 0);
             student_response = \<lparr>response_question_id = qid, student_id = sid,
               response_text = text, is_correct = Some correct, score = Some sc,
               response_time = rtime, confidence_level = conf, submitted_at = now\<rparr>;
             db1 = db\<lparr>pending := pending db @ [student_response]\<rparr>;
             question1 = question\<lparr>usage_count := usage_count question + 1\<rparr>;
             question2 = update_correct_rate question1 db1
         in Inr (commit db1 question2,
                 \<lparr>reply_is_correct = correct, reply_score = sc,
                  reply_explanation = explanation question\<rparr>)))"


section \<open>Learning trends (api/routers/analytics.py)\<close>

text \<open>
  The result of \<open>_analyze_learning_trends\<close>: the insufficient-data message, or the trend
  with the list of batch rates. The third entry of the result, the mean response time,
  is computed from the responses alone and plays no part in the trend; it is left out.
\<close>

datatype LearningTrends = InsufficientData | Trends string "real list"

definition batch_rate :: "StudentResponse list \<Rightarrow> real" where
  \<comment> \<open>\<open>(correct_count / len(batch)) * 100\<close>\<close>
  "batch_rate batch =
     (let correct_count = sum_list (map (\<lambda>r. 1) (filter (\<lambda>r. is_correct r = Some True) batch))
      in (real correct_count / real (length batch)) * 100)"

fun correct_rates_loop :: "StudentResponse list \<Rightarrow> real list" where
  \<comment> \<open>\<open>for i in range(0, len(recent_responses), 5)\<close>, on the responses from \<open>i\<close> on\<close>
  "correct_rates_loop [] = []"
| "correct_rates_loop (r # rs) =
     (let batch = take 5 (r # rs)
      in (if length batch \<ge> 3 then [batch_rate batch] else [])
         @ correct_rates_loop (drop 5 (r # rs)))"

definition performance_trend :: "real list \<Rightarrow> string" where
  "performance_trend correct_rates =
     (if length correct_rates \<ge> 2 then
        (if last correct_rates > hd correct_rates + 10 then ''Improving''
         else if last correct_rates < hd correct_rates - 10 then ''Declining''
         else ''Stable'')
      else ''Stable'')"

definition analyze_learning_trends :: "StudentResponse list \<Rightarrow> LearningTrends" where
  "analyze_learning_trends responses =
     (if length responses < 5 then InsufficientData
      else (let recent_responses = sort_key submitted_at (take 20 responses);
                correct_rates = correct_rates_loop recent_responses
            in Trends (performance_trend correct_rates) correct_rates))"

section \<open>Difficulty distribution and balance (services/difficulty\_adjuster.py)\<close>

text \<open>
  A ratio dictionary with the keys \<open>"easy"\<close>, \<open>"medium"\<close>, \<open>"hard"\<close> is a function on
  the three tiers; so is a dictionary of counts per tier.
\<close>

definition default_ratio :: "DifficultyLevel \<Rightarrow> real" where
  "default_ratio d =
     (case d of EASY \<Rightarrow> to_double (2 / 5) | MEDIUM \<Rightarrow> to_double (2 / 5) | HARD \<Rightarrow> to_double (1 / 5))"

definition ratio_or_default ::
  "(DifficultyLevel \<Rightarrow> real) option \<Rightarrow> DifficultyLevel \<Rightarrow> real" where
  \<comment> \<open>\<open>if ratio is None: ratio = {"easy": 0.4, "medium": 0.4, "hard": 0.2}\<close>\<close>
  "ratio_or_default ratio = (case ratio of None \<Rightarrow> default_ratio | Some r \<Rightarrow> r)"

definition calculate_difficulty_distribution ::
  "int \<Rightarrow> (DifficultyLevel \<Rightarrow> real) option \<Rightarrow> (DifficultyLevel \<Rightarrow> int)" where
  "calculate_difficulty_distribution total_qs target_distribution_arg =
     (let target_distribution = ratio_or_default target_distribution_arg;
          easy_count = py_int (fmul (float_of_int total_qs) (target_distribution EASY));
          remaining1 = total_qs - easy_count;
          medium_count = py_int (fmul (float_of_int total_qs) (target_distribution MEDIUM));
          remaining2 = remaining1 - medium_count
      in (\<lambda>d. case d of EASY \<Rightarrow> easy_count | MEDIUM \<Rightarrow> medium_count | HARD \<Rightarrow> remaining2))"

definition ideal_ratios :: "DifficultyLevel \<Rightarrow> real" where
  "ideal_ratios d =
     (case d of EASY \<Rightarrow> to_double (2 / 5) | MEDIUM \<Rightarrow> to_double (2 / 5) | HARD \<Rightarrow> to_double (1 / 5))"

definition calculate_balance_score :: "(DifficultyLevel \<rightharpoonup> real) \<Rightarrow> real" where
  "calculate_balance_score ratios =
     (let differences = map (\<lambda>level. \<bar>fsub (case ratios level of None \<Rightarrow> 0 | Some x \<Rightarrow> x)
                                              (ideal_ratios level)\<bar>) [EASY, MEDIUM, HARD];
          avg_difference = fdiv (py_sum differences) (float_of_int (int (length differences)))
      in max 0 (fsub (float_of_int 1) (fmul avg_difference (float_of_int 2))))"

text \<open>
  What \<open>validate_difficulty_balance\<close> reads of a generated question: it has no
  \<open>difficulty\<close> attribute (then medium is assumed), its difficulty is one of the three
  tiers, or it is some other value, which is not counted.
\<close>

datatype difficulty_attr = NoAttribute | Tier DifficultyLevel | OtherValue

record BalanceReport =
  br_total_questions :: nat
  br_difficulty_counts :: "DifficultyLevel \<Rightarrow> nat"
  br_difficulty_ratios :: "DifficultyLevel \<rightharpoonup> real"
  br_balance_score :: real
  br_is_balanced :: bool

fun count_difficulty :: "difficulty_attr \<Rightarrow> (DifficultyLevel \<Rightarrow> nat) \<Rightarrow> (DifficultyLevel \<Rightarrow> nat)" where
  "count_difficulty NoAttribute counts = counts(MEDIUM := counts MEDIUM + 1)"
| "count_difficulty (Tier d) counts = counts(d := counts d + 1)"
| "count_difficulty OtherValue counts = counts"

definition validate_difficulty_balance :: "difficulty_attr list \<Rightarrow> BalanceReport" where
  "validate_difficulty_balance generated_questions =
     (let n = length generated_questions;
          counts = fold count_difficulty generated_questions (\<lambda>d. 0);
          ratios = (\<lambda>level. Some (if n > 0 then int_truediv (int (counts level)) (int n) else 0));
          sc = calculate_balance_score ratios
      in \<lparr>br_total_questions = n, br_difficulty_counts = counts, br_difficulty_ratios = ratios,
          br_balance_score = sc, br_is_balanced = (sc \<ge> to_double (7 / 10))\<rparr>)"

section \<open>Question generation (services/qa\_generator.py)\<close>

subsection \<open>String search and slicing\<close>

fun find_at :: "string \<Rightarrow> string \<Rightarrow> nat option" where
  \<comment> \<open>offset of the first occurrence of \<open>sub\<close>\<close>
  "find_at sub [] = (if sub = [] then Some 0 else None)"
| "find_at sub (c # cs) =
     (if startswith (c # cs) sub then Some 0 else map_option Suc (find_at sub cs))"

definition py_find :: "string \<Rightarrow> string \<Rightarrow> int \<Rightarrow> int" where
  \<comment> \<open>\<open>s.find(sub, start)\<close>: lowest index from \<open>start\<close> on, or \<open>-1\<close>\<close>
  "py_find s sub start =
     (let b = (if start < 0 then max 0 (int (length s) + start) else start)
      in if b > int (length s) then - 1
         else (case find_at sub (drop (nat b) s) of None \<Rightarrow> - 1 | Some i \<Rightarrow> b + int i))"

definition py_index :: "string \<Rightarrow> int \<Rightarrow> nat" where
  \<comment> \<open>a slice bound: negative bounds count from the end, all bounds are clipped\<close>
  "py_index s i = (if i < 0 then nat (max 0 (int (length s) + i)) else min (nat i) (length s))"

definition py_slice :: "string \<Rightarrow> int \<Rightarrow> int \<Rightarrow> string" where
  \<comment> \<open>\<open>s[a:b]\<close>\<close>
  "py_slice s a b = take (py_index s b - py_index s a) (drop (py_index s a) s)"

subsection \<open>Extraction of the JSON part of a reply\<close>

fun match_brace :: "string \<Rightarrow> int \<Rightarrow> nat \<Rightarrow> nat option" where
  \<comment> \<open>the \<open>for i, char in enumerate(...)\<close> loop of pattern 3: the characters left to
      scan, \<open>brace_count\<close>, and the index \<open>i\<close> of the first of them; the result is the
      index at which the loop returns, if it does\<close>
  "match_brace [] brace_count i = None"
| "match_brace (c # cs) brace_count i =
     (if c = CHR ''{'' then match_brace cs (brace_count + 1) (Suc i)
      else if c = CHR ''}'' then
        (if brace_count - 1 = 0 then Some i else match_brace cs (brace_count - 1) (Suc i))
      else match_brace cs brace_count (Suc i))"

definition from_pattern4 :: "string \<Rightarrow> string option" where
  \<comment> \<open>Pattern 4: try the whole content\<close>
  "from_pattern4 response_content =
     (let content = py_strip response_content
      in if startswith content ''{'' \<and> endswith content ''}'' then Some content else None)"

definition from_pattern3 :: "string \<Rightarrow> string option" where
  \<comment> \<open>Pattern 3: directly extract the \<open>{ ... }\<close> block; falls through to pattern 4\<close>
  "from_pattern3 response_content =
     (let start_brace = py_find response_content ''{'' 0
      in if start_brace \<noteq> - 1 then
           (case match_brace (drop (nat start_brace) response_content) 0 (nat start_brace) of
              Some i \<Rightarrow> Some (py_slice response_content start_brace (int i + 1))
            | None \<Rightarrow> from_pattern4 response_content)
         else from_pattern4 response_content)"

definition from_pattern2 :: "string \<Rightarrow> string option" where
  \<comment> \<open>Pattern 2: a fenced block without a tag; falls through to pattern 3\<close>
  "from_pattern2 response_content =
     (if py_in ''```'' response_content then
        (let start = py_find response_content ''```'' 0 + 3;
             end_pos = py_find response_content ''```'' start
         in if end_pos \<noteq> - 1 then
              (let potential_json = py_strip (py_slice response_content start end_pos)
               in if startswith potential_json ''{'' \<and> endswith potential_json ''}''
                  then Some potential_json
                  else from_pattern3 response_content)
            else from_pattern3 response_content)
      else from_pattern3 response_content)"

definition extract_json_from_response :: "string \<Rightarrow> string option" where
  \<comment> \<open>Pattern 1: a fenced block tagged \<open>json\<close>; falls through to pattern 2\<close>
  "extract_json_from_response response_content =
     (if py_in ''```json'' response_content then
        (let start = py_find response_content ''```json'' 0 + 7;
             end_pos = py_find response_content ''```'' start
         in if end_pos \<noteq> - 1 then Some (py_strip (py_slice response_content start end_pos))
            else from_pattern2 response_content)
      else from_pattern2 response_content)"

subsection \<open>Parsing and validation of a reply\<close>

datatype json = JNull | JBool bool | JNumber real | JString string
  | JArray "json list" | JObject "(string \<times> json) list"

text \<open>
  Exceptions are values. Only exceptions of class \<open>Exception\<close> are modelled, which
  is what \<open>except Exception\<close> catches.
\<close>

datatype py_exception = JSONDecodeError | TypeError | Raised string

record GeneratedQuestion =
  gq_question :: string
  gq_question_type :: QuestionType
  gq_difficulty :: DifficultyLevel
  gq_choices :: "string list option"
  gq_correct_answer :: string
  gq_explanation :: string
  gq_keywords :: "string list"

record SlideContent =
  slide_number :: int
  title :: string
  content :: string
  bullet_points :: "string list"
  full_text :: string

text \<open>
  The library calls of the generator, each of which may raise: rendering the prompt
  (\<open>_create_question_prompt\<close>, through the prompt template), the model call
  \<open>llm.invoke\<close>, \<open>json.loads\<close>, and the validating constructor
  \<open>GeneratedQuestion(**data)\<close>. The model call is not a function of the prompt;
  its first argument is the number of single-question generations made before it.
\<close>

record Env =
  create_question_prompt :: "SlideContent \<Rightarrow> DifficultyLevel \<Rightarrow> py_exception + string"
  llm_invoke :: "nat \<Rightarrow> string \<Rightarrow> py_exception + string"
  json_loads :: "string \<Rightarrow> py_exception + json"
  construct_question :: "(string \<times> json) list \<Rightarrow> py_exception + GeneratedQuestion"

fun json_contains :: "string \<Rightarrow> json \<Rightarrow> py_exception + bool" where
  \<comment> \<open>\<open>field in data\<close>: a key of a dict, an element of a list, a substring of a string\<close>
  "json_contains field (JObject kvs) = Inr (field \<in> set (map fst kvs))"
| "json_contains field (JArray xs) = Inr (JString field \<in> set xs)"
| "json_contains field (JString s) = Inr (py_in field s)"
| "json_contains field _ = Inl TypeError"

fun json_setitem :: "json \<Rightarrow> string \<Rightarrow> json \<Rightarrow> py_exception + json" where
  \<comment> \<open>\<open>data[key] = v\<close> for a string key not yet in \<open>data\<close>\<close>
  "json_setitem (JObject kvs) k v = Inr (JObject (kvs @ [(k, v)]))"
| "json_setitem _ k v = Inl TypeError"

fun json_truthy :: "json \<Rightarrow> bool" where
  "json_truthy JNull = False"
| "json_truthy (JBool b) = b"
| "json_truthy (JNumber x) = (x \<noteq> 0)"
| "json_truthy (JString s) = (s \<noteq> [])"
| "json_truthy (JArray xs) = (xs \<noteq> [])"
| "json_truthy (JObject kvs) = (kvs \<noteq> [])"

definition required_fields :: "string list" where
  "required_fields = [''question'', ''question_type'', ''difficulty'', ''correct_answer'',
     ''explanation'']"

fun check_required :: "string list \<Rightarrow> json \<Rightarrow> py_exception + bool" where
  \<comment> \<open>the loop over \<open>required_fields\<close>: \<open>False\<close> at the first field that is missing\<close>
  "check_required [] data = Inr True"
| "check_required (field # others) data =
     (case json_contains field data of
        Inl e \<Rightarrow> Inl e
      | Inr False \<Rightarrow> Inr False
      | Inr True \<Rightarrow> check_required others data)"

definition parse_response_body :: "Env \<Rightarrow> string \<Rightarrow> py_exception + json option" where
  \<comment> \<open>the \<open>try\<close> block of \<open>_parse_response\<close>\<close>
  "parse_response_body env response_content =
     (case extract_json_from_response response_content of
        None \<Rightarrow> Inr None
      | Some json_content \<Rightarrow>
          if json_content = [] then Inr None
          else (case json_loads env json_content of
                  Inl e \<Rightarrow> Inl e
                | Inr data \<Rightarrow>
                   (case check_required required_fields data of
                      Inl e \<Rightarrow> Inl e
                    | Inr False \<Rightarrow> Inr None
                    | Inr True \<Rightarrow>
                       (case json_contains ''keywords'' data of
                          Inl e \<Rightarrow> Inl e
                        | Inr True \<Rightarrow> Inr (Some data)
                        | Inr False \<Rightarrow>
                           (case json_setitem data ''keywords'' (JArray []) of
                              Inl e \<Rightarrow> Inl e
                            | Inr data' \<Rightarrow> Inr (Some data'))))))"

definition parse_response :: "Env \<Rightarrow> string \<Rightarrow> py_exception + json option" where
  "parse_response env response_content =
     (case parse_response_body env response_content of
        Inl JSONDecodeError \<Rightarrow> Inr None
      | Inl e \<Rightarrow> Inr None
      | Inr r \<Rightarrow> Inr r)"

definition generate_single_question_body ::
  "Env \<Rightarrow> nat \<Rightarrow> SlideContent \<Rightarrow> DifficultyLevel \<Rightarrow> py_exception + GeneratedQuestion option" where
  \<comment> \<open>the \<open>try\<close> block of \<open>_generate_single_question\<close>\<close>
  "generate_single_question_body env n slide_content difficulty =
     (case create_question_prompt env slide_content difficulty of
        Inl e \<Rightarrow> Inl e
      | Inr prompt \<Rightarrow>
         (case llm_invoke env n prompt of
            Inl e \<Rightarrow> Inl e
          | Inr response \<Rightarrow>
             (case parse_response env response of
                Inl e \<Rightarrow> Inl e
              | Inr None \<Rightarrow> Inr None
              | Inr (Some question_data) \<Rightarrow>
                  if json_truthy question_data then
                    (case question_data of
                       JObject kvs \<Rightarrow>
                         (case construct_question env kvs of
                            Inl e \<Rightarrow> Inl e
                          | Inr q \<Rightarrow> Inr (Some q))
                     | _ \<Rightarrow> Inl TypeError)
                  else Inr None)))"

definition generate_single_question ::
  "Env \<Rightarrow> nat \<Rightarrow> SlideContent \<Rightarrow> DifficultyLevel \<Rightarrow> py_exception + GeneratedQuestion option" where
  "generate_single_question env n slide_content difficulty =
     (case generate_single_question_body env n slide_content difficulty of
        Inl e \<Rightarrow> Inr None
      | Inr r \<Rightarrow> Inr r)"

subsection \<open>Questions for a slide\<close>

record QASet =
  qa_slide_number :: int
  qa_slide_title :: string
  qa_questions :: "GeneratedQuestion list"

text \<open>
  The calls of \<open>_generate_single_question\<close> are the effect of a generation run. The
  run carries the log of the calls made so far, each with the number of the slide and the
  tier asked for; the length of the log is what the model call is indexed by.
\<close>

type_synonym call_log = "(int \<times> DifficultyLevel) list"

definition requested_tiers :: "(DifficultyLevel \<Rightarrow> int) \<Rightarrow> DifficultyLevel list" where
  \<comment> \<open>the iterations of \<open>for difficulty, count in ...items(): for _ in range(count)\<close>,
      the dictionary being in the order easy, medium, hard\<close>
  "requested_tiers difficulty_distribution =
     concat (map (\<lambda>d. replicate (nat (difficulty_distribution d)) d) [EASY, MEDIUM, HARD])"

fun generate_loop ::
  "Env \<Rightarrow> SlideContent \<Rightarrow> DifficultyLevel list \<Rightarrow> call_log \<Rightarrow> GeneratedQuestion list
     \<Rightarrow> py_exception + (GeneratedQuestion list \<times> call_log)" where
  "generate_loop env slide_content [] calls questions = Inr (questions, calls)"
| "generate_loop env slide_content (difficulty # rest) calls questions =
     (case generate_single_question env (length calls) slide_content difficulty of
        Inl e \<Rightarrow> Inl e
      | Inr None \<Rightarrow>
          generate_loop env slide_content rest
            (calls @ [(slide_number slide_content, difficulty)]) questions
      | Inr (Some question) \<Rightarrow>
          generate_loop env slide_content rest
            (calls @ [(slide_number slide_content, difficulty)]) (questions @ [question]))"

definition default_distribution :: "DifficultyLevel \<Rightarrow> int" where
  "default_distribution d = (case d of EASY \<Rightarrow> 1 | MEDIUM \<Rightarrow> 1 | HARD \<Rightarrow> 0)"

definition generate_questions_for_slide ::
  "Env \<Rightarrow> call_log \<Rightarrow> SlideContent \<Rightarrow> (DifficultyLevel \<Rightarrow> int) option
     \<Rightarrow> py_exception + (QASet \<times> call_log)" where
  \<comment> \<open>the parameter \<open>num_questions\<close> is not read by the function\<close>
  "generate_questions_for_slide env calls slide_content difficulty_distribution_arg =
     (let difficulty_distribution =
            (case difficulty_distribution_arg of None \<Rightarrow> default_distribution | Some d \<Rightarrow> d)
      in case generate_loop env slide_content (requested_tiers difficulty_distribution) calls [] of
           Inl e \<Rightarrow> Inl e
         | Inr (questions, calls') \<Rightarrow>
             Inr (\<lparr>qa_slide_number = slide_number slide_content,
                   qa_slide_title = title slide_content,
                   qa_questions = questions\<rparr>, calls'))"

subsection \<open>Comprehensive generation\<close>

definition has_sufficient_content :: "SlideContent \<Rightarrow> bool" where
  "has_sufficient_content slide_content =
     (length (full_text slide_content) \<ge> 50 \<or> length (content slide_content) \<ge> 50
      \<or> length (bullet_points slide_content) \<ge> 2)"

text \<open>
  \<open>_distribute_difficulty_for_slide\<close> updates the dictionary of remaining counts that
  it is given; the model returns the updated dictionary with the distribution.
\<close>

definition distribute_step ::
  "DifficultyLevel \<Rightarrow> (DifficultyLevel \<Rightarrow> int) \<times> (DifficultyLevel \<Rightarrow> int) \<times> int
     \<Rightarrow> (DifficultyLevel \<Rightarrow> int) \<times> (DifficultyLevel \<Rightarrow> int) \<times> int" where
  \<comment> \<open>one iteration of the loop over the tiers: the distribution, the remaining counts
      and \<open>questions_count\<close>\<close>
  "distribute_step difficulty st =
     (case st of (distribution, remaining, questions_count) \<Rightarrow>
        (let available = remaining difficulty
         in if available > 0 \<and> questions_count > 0 then
              (let allocated = min 1 (min available questions_count)
               in (distribution(difficulty := allocated),
                   remaining(difficulty := remaining difficulty - allocated),
                   questions_count - allocated))
            else (distribution, remaining, questions_count)))"

definition distribute_difficulty_for_slide ::
  "int \<Rightarrow> (DifficultyLevel \<Rightarrow> int) \<Rightarrow> (DifficultyLevel \<Rightarrow> int) \<times> (DifficultyLevel \<Rightarrow> int)" where
  "distribute_difficulty_for_slide questions_count remaining_difficulty_counts =
     (case fold distribute_step [EASY, MEDIUM, HARD]
             ((\<lambda>d. 0), remaining_difficulty_counts, questions_count) of
        (distribution, remaining, _) \<Rightarrow> (distribution, remaining))"

fun comprehensive_loop ::
  "Env \<Rightarrow> int \<Rightarrow> int \<Rightarrow> nat \<Rightarrow> SlideContent list \<Rightarrow> (DifficultyLevel \<Rightarrow> int)
     \<Rightarrow> call_log \<Rightarrow> QASet list \<Rightarrow> py_exception + (QASet list \<times> call_log)" where
  \<comment> \<open>\<open>for i, slide_content in enumerate(valid_slides)\<close> from index \<open>i\<close> on, with the
      remaining counts, the call calls and \<open>qa_sets\<close>\<close>
  "comprehensive_loop env questions_per_slide remaining_questions i [] difficulty_counts calls qa_sets
     = Inr (qa_sets, calls)"
| "comprehensive_loop env questions_per_slide remaining_questions i (slide_content # rest)
       difficulty_counts calls qa_sets =
     (let slide_questions =
            (if int i < remaining_questions then questions_per_slide + 1 else questions_per_slide)
      in case distribute_difficulty_for_slide slide_questions difficulty_counts of
           (slide_difficulty_dist, difficulty_counts') \<Rightarrow>
             (case generate_questions_for_slide env calls slide_content
                     (Some slide_difficulty_dist) of
                Inl e \<Rightarrow> Inl e
              | Inr (qa_set, calls') \<Rightarrow>
                  comprehensive_loop env questions_per_slide remaining_questions (Suc i) rest
                    difficulty_counts' calls' (qa_sets @ [qa_set])))"

definition generate_comprehensive_qa ::
  "Env \<Rightarrow> call_log \<Rightarrow> SlideContent list \<Rightarrow> int \<Rightarrow> (DifficultyLevel \<Rightarrow> real) option
     \<Rightarrow> py_exception + (QASet list \<times> call_log)" where
  "generate_comprehensive_qa env calls slides_content total_qs difficulty_ratio_arg =
     (let difficulty_ratio = ratio_or_default difficulty_ratio_arg;
          easy_count = py_int (fmul (float_of_int total_qs) (difficulty_ratio EASY));
          medium_count = py_int (fmul (float_of_int total_qs) (difficulty_ratio MEDIUM));
          hard_count = total_qs - easy_count - medium_count;
          valid_slides = filter has_sufficient_content slides_content
      in if valid_slides = [] then Inr ([], calls)
         else
           (let questions_per_slide = total_qs div int (length valid_slides);
                remaining_questions = total_qs mod int (length valid_slides);
                difficulty_counts =
                  (\<lambda>d. case d of EASY \<Rightarrow> easy_count | MEDIUM \<Rightarrow> medium_count | HARD \<Rightarrow> hard_count)
            in comprehensive_loop env questions_per_slide remaining_questions 0 valid_slides
                 difficulty_counts calls []))"

section \<open>Notions of the statements and concrete inputs\<close>

definition mk_question :: "QuestionType \<Rightarrow> string \<Rightarrow> keywords_json \<Rightarrow> Question" where
  "mk_question t answer kws =
     \<lparr>question_id = 1, question_type = t, correct_answer = answer, explanation = None,
      question_keywords = kws, usage_count = 0, correct_rate = None\<rparr>"

text \<open>
  The number of keywords that occur, without regard to case, in the trimmed response.
\<close>

definition keyword_hits :: "string list \<Rightarrow> string \<Rightarrow> nat" where
  "keyword_hits ks r = length (filter (\<lambda>kw. py_in (py_lower kw) (py_lower (py_strip r))) ks)"

definition no_keywords :: "Question \<Rightarrow> bool" where
  "no_keywords q = (question_keywords q = KwNull \<or> question_keywords q = KwList [])"

definition one_question_db :: "Question \<Rightarrow> Session" where
  "one_question_db q = \<lparr>question_rows = [q], response_rows = [], pending = []\<rparr>"

text \<open>
  The rows that the query of \<open>_update_correct_rate\<close> returns: the responses to the
  question whose correctness is known.
\<close>

definition known_responses :: "Question \<Rightarrow> Session \<Rightarrow> StudentResponse list" where
  "known_responses q db =
     filter (\<lambda>r. response_question_id r = question_id q \<and> is_correct r \<noteq> None) (response_rows db)"

definition correct_count :: "StudentResponse list \<Rightarrow> nat" where
  "correct_count rs = length (filter (\<lambda>r. is_correct r = Some True) rs)"

definition mk_response :: "int \<Rightarrow> bool option \<Rightarrow> nat \<Rightarrow> StudentResponse" where
  "mk_response qid verdict t =
     \<lparr>response_question_id = qid, student_id = ''s1'', response_text = ''text'',
      is_correct = verdict, score = None, response_time = None, confidence_level = None,
      submitted_at = t\<rparr>"

definition three_responses_db :: Session where
  "three_responses_db =
     \<lparr>question_rows = [mk_question MULTIPLE_CHOICE ''paris'' KwNull],
      response_rows = [mk_response 1 (Some True) 1, mk_response 2 (Some True) 2,
                       mk_response 1 (Some False) 3, mk_response 1 None 4,
                       mk_response 1 (Some True) 5],
      pending = []\<rparr>"

definition fifty_responses_db :: Session where
  "fifty_responses_db =
     \<lparr>question_rows = [mk_question MULTIPLE_CHOICE ''paris'' KwNull],
      response_rows = map (mk_response 1 (Some True)) [0 ..< 29]
                      @ map (mk_response 1 (Some False)) [29 ..< 50],
      pending = []\<rparr>"

text \<open>
  The values of a ratio mapping sum to 1.0: their sum as Python adds floats is 1.0, or
  they sum to 1 as real numbers. Three ratio mappings of which the values sum to 1.0:
  one with a negative value, one of which the easy ratio is the float \<open>0.7\<close>, and
  one that gives every question to the easy tier.
\<close>

definition sums_to_one :: "(DifficultyLevel \<Rightarrow> real) \<Rightarrow> bool" where
  "sums_to_one ratio \<longleftrightarrow>
     py_sum [ratio EASY, ratio MEDIUM, ratio HARD] = 1 \<or> ratio EASY + ratio MEDIUM + ratio HARD = 1"

definition skewed_ratio :: "DifficultyLevel \<Rightarrow> real" where
  "skewed_ratio d = (case d of EASY \<Rightarrow> - 0.25 | MEDIUM \<Rightarrow> 0.5 | HARD \<Rightarrow> 0.75)"

definition seven_tenths_ratio :: "DifficultyLevel \<Rightarrow> real" where
  "seven_tenths_ratio d =
     (case d of EASY \<Rightarrow> to_double (7 / 10) | MEDIUM \<Rightarrow> fsub 1 (to_double (7 / 10)) | HARD \<Rightarrow> 0)"

definition all_easy_ratio :: "DifficultyLevel \<Rightarrow> real" where
  "all_easy_ratio d = (case d of EASY \<Rightarrow> 1 | MEDIUM \<Rightarrow> 0 | HARD \<Rightarrow> 0)"

text \<open>
  The tier under which \<open>validate_difficulty_balance\<close> counts a question, and the number
  of questions of a list counted under a tier.
\<close>

fun counted_as :: "difficulty_attr \<Rightarrow> DifficultyLevel option" where
  "counted_as NoAttribute = Some MEDIUM"
| "counted_as (Tier d) = Some d"
| "counted_as OtherValue = None"

definition tier_count :: "DifficultyLevel \<Rightarrow> difficulty_attr list \<Rightarrow> nat" where
  "tier_count t qs = length (filter (\<lambda>q. counted_as q = Some t) qs)"

text \<open>
  The observed ratio of a tier, \<open>ratios.get(level, 0)\<close>; the mean of the absolute
  deviations of the observed ratios from the ideal ones, as doubles; and the same mean
  in exact arithmetic.
\<close>

definition observed :: "(DifficultyLevel \<rightharpoonup> real) \<Rightarrow> DifficultyLevel \<Rightarrow> real" where
  "observed ratios level = (case ratios level of None \<Rightarrow> 0 | Some x \<Rightarrow> x)"

definition mean_deviation :: "(DifficultyLevel \<Rightarrow> real) \<Rightarrow> real" where
  "mean_deviation obs =
     fdiv (py_sum [\<bar>fsub (obs EASY) (to_double (2 / 5))\<bar>, \<bar>fsub (obs MEDIUM) (to_double (2 / 5))\<bar>,
                   \<bar>fsub (obs HARD) (to_double (1 / 5))\<bar>]) 3"

definition exact_mean_deviation :: "(DifficultyLevel \<Rightarrow> real) \<Rightarrow> real" where
  "exact_mean_deviation obs = (\<bar>obs EASY - 0.4\<bar> + \<bar>obs MEDIUM - 0.4\<bar> + \<bar>obs HARD - 0.2\<bar>) / 3"

definition sample_slide :: SlideContent where
  "sample_slide = \<lparr>slide_number = 1, title = ''Cells'',
     content = ''Mitochondria produce the energy of the cell.'',
     bullet_points = [''mitochondria'', ''energy''], full_text = ''Cells''\<rparr>"

definition sample_question :: GeneratedQuestion where
  "sample_question = \<lparr>gq_question = ''What is ATP?'', gq_question_type = SHORT_ANSWER,
     gq_difficulty = EASY, gq_choices = None, gq_correct_answer = ''energy'',
     gq_explanation = ''use {x} notation'', gq_keywords = []\<rparr>"

definition sample_json :: string where
  \<open>sample_json = ''{"question": "What is ATP?", "question_type": "short_answer", "difficulty": "easy", "correct_answer": "energy", "explanation": "use {x} notation"}''\<close>

definition sample_payload :: "(string \<times> json) list" where
  "sample_payload = [(''question'', JString ''What is ATP?''),
     (''question_type'', JString ''short_answer''), (''difficulty'', JString ''easy''),
     (''correct_answer'', JString ''energy''), (''explanation'', JString ''use {x} notation'')]"

definition sample_reply :: "nat \<Rightarrow> py_exception + string" where
  \<open>sample_reply n =
     (if n = 0 then Inr (''Here is the question: '' @ sample_json @ '' Good luck!'')
      else if n = 1 then Inl (Raised ''timeout'')
      else if n = 2 then Inr ''I cannot answer that.''
      else if n = 3 then Inr ''{"question": }''
      else Inr ''{"question": "q"}'')\<close>

definition sample_env :: Env where
  \<open>sample_env =
     \<lparr>create_question_prompt = (\<lambda>s d. Inr ''prompt''),
      llm_invoke = (\<lambda>n p. sample_reply n),
      json_loads = (\<lambda>text. if text = sample_json then Inr (JObject sample_payload)
                           else if text = ''{"question": "q"}''
                           then Inr (JObject [(''question'', JString ''q'')])
                           else Inl JSONDecodeError),
      construct_question = (\<lambda>kvs. if kvs = sample_payload @ [(''keywords'', JArray [])]
                                   then Inr sample_question else Inl (Raised ''validation''))\<rparr>\<close>

definition sample_counts :: "DifficultyLevel \<Rightarrow> int" where
  "sample_counts d = (case d of EASY \<Rightarrow> 2 | MEDIUM \<Rightarrow> 2 | HARD \<Rightarrow> 1)"

text \<open>
  The questions of the successful ones among the generations asked for a slide, in the
  order of the calls, the first call being the \<open>n\<close>-th of the run.
\<close>

fun successes ::
  "Env \<Rightarrow> nat \<Rightarrow> SlideContent \<Rightarrow> DifficultyLevel list \<Rightarrow> GeneratedQuestion list" where
  "successes env n s [] = []"
| "successes env n s (d # ds) =
     (case generate_single_question env n s d of Inr (Some q) \<Rightarrow> [q] | _ \<Rightarrow> [])
     @ successes env (Suc n) s ds"

text \<open>
  The allocation of a comprehensive run, slide by slide: the slide, the distribution it
  is given and the remaining counts after it; the calls that this allocation asks for;
  the number of calls of a tier in a log.
\<close>

type_synonym tier_counts = "DifficultyLevel \<Rightarrow> int"

fun allocation_plan ::
  "int \<Rightarrow> int \<Rightarrow> nat \<Rightarrow> SlideContent list \<Rightarrow> tier_counts
     \<Rightarrow> (SlideContent \<times> tier_counts \<times> tier_counts) list" where
  "allocation_plan qps remq i [] pool = []"
| "allocation_plan qps remq i (s # rest) pool =
     (case distribute_difficulty_for_slide (if int i < remq then qps + 1 else qps) pool of
        (alloc, pool') \<Rightarrow> (s, alloc, pool') # allocation_plan qps remq (Suc i) rest pool')"

definition run_plan ::
  "SlideContent list \<Rightarrow> int \<Rightarrow> (DifficultyLevel \<Rightarrow> real) option
     \<Rightarrow> (SlideContent \<times> tier_counts \<times> tier_counts) list" where
  "run_plan slides total_qs ratio =
     (let valid = filter has_sufficient_content slides
      in allocation_plan (total_qs div int (length valid)) (total_qs mod int (length valid)) 0
           valid (calculate_difficulty_distribution total_qs ratio))"

definition plan_calls :: "(SlideContent \<times> tier_counts \<times> tier_counts) list \<Rightarrow> call_log" where
  "plan_calls plan =
     concat (map (\<lambda>(s, alloc, pool'). map (Pair (slide_number s)) (requested_tiers alloc)) plan)"

definition allocated ::
  "(SlideContent \<times> tier_counts \<times> tier_counts) list \<Rightarrow> DifficultyLevel \<Rightarrow> int" where
  "allocated plan t = sum_list (map (\<lambda>(s, alloc, pool'). alloc t) plan)"

definition tier_calls :: "DifficultyLevel \<Rightarrow> call_log \<Rightarrow> int" where
  "tier_calls t calls = int (count_list (map snd calls) t)"

definition every_call_succeeds :: "Env \<Rightarrow> bool" where
  "every_call_succeeds env = (\<forall>n s d. \<exists>q. generate_single_question env n s d = Inr (Some q))"

definition mk_slide :: "int \<Rightarrow> string list \<Rightarrow> SlideContent" where
  "mk_slide k bullets = \<lparr>slide_number = k, title = ''Slide'', content = ''Text'',
     bullet_points = bullets, full_text = ''Slide Text''\<rparr>"

definition four_slides :: "SlideContent list" where
  "four_slides = [mk_slide 1 [''a'', ''b''], mk_slide 2 [''a''], mk_slide 3 [''a'', ''b'', ''c''],
     mk_slide 4 [''a'', ''b'']]"

definition reliable_env :: Env where
  "reliable_env = sample_env\<lparr>llm_invoke := (\<lambda>n p. sample_reply 0)\<rparr>"

text \<open>
  The consecutive groups of five of a list, the last one possibly shorter; the rates of
  the groups with at least three members among the first 20 responses in ascending order
  of submission time; the share of correct responses of a group in percent; and a
  history of responses, newest first, with the verdicts given.
\<close>

definition groups_of_five :: "'a list \<Rightarrow> 'a list list" where
  "groups_of_five xs = map (\<lambda>k. take 5 (drop (5 * k) xs)) [0 ..< (length xs + 4) div 5]"

definition group_rates :: "StudentResponse list \<Rightarrow> real list" where
  "group_rates rs =
     map batch_rate (filter (\<lambda>g. 3 \<le> length g)
       (groups_of_five (sort_key submitted_at (take 20 rs))))"

definition percent_correct :: "StudentResponse list \<Rightarrow> real" where
  "percent_correct g = 100 * real (correct_count g) / real (length g)"

definition answers :: "nat \<Rightarrow> bool list \<Rightarrow> StudentResponse list" where
  "answers t verdicts = map (\<lambda>(k, v). mk_response 1 (Some v) k) (zip (rev [t ..< t + length verdicts]) verdicts)"

definition improving_history :: "StudentResponse list" where
  "improving_history = answers 1
     [True, True, True, False, True,  True, False, True, False, True,
      False, True, True, False, False,  False, True, False, True, False]"

text \<open>
  The extraction strategies in the words of the specification. The interior of a fenced
  block: what lies between the first occurrence of the opening marker and the next fence
  marker. Strategy 1 is the trimmed interior of the block opened by the marker with the
  \<open>json\<close> tag; strategy 2 is the trimmed interior of the block opened by the first
  fence marker, if it starts with an opening and ends with a closing brace; strategy 3 is
  the span from the first opening brace to the first position at which as many braces
  have been closed as opened; strategy 4 is the trimmed reply, if it starts and ends with
  a brace. The ladder takes the first strategy that yields a payload.
\<close>

definition fenced_interior :: "string \<Rightarrow> string \<Rightarrow> string option" where
  "fenced_interior opener reply =
     (case find_at opener reply of
        None \<Rightarrow> None
      | Some i \<Rightarrow>
         (case find_at ''```'' (drop (i + length opener) reply) of
            None \<Rightarrow> None
          | Some n \<Rightarrow> Some (take n (drop (i + length opener) reply))))"

definition braced :: "string \<Rightarrow> bool" where
  "braced s = (startswith s ''{'' \<and> endswith s ''}'')"

definition depth :: "string \<Rightarrow> int" where
  "depth s = int (count_list s CHR ''{'') - int (count_list s CHR ''}'')"

definition strategy1 :: "string \<Rightarrow> string option" where
  "strategy1 reply = map_option py_strip (fenced_interior ''```json'' reply)"

definition strategy2 :: "string \<Rightarrow> string option" where
  "strategy2 reply =
     (case fenced_interior ''```'' reply of
        None \<Rightarrow> None
      | Some body \<Rightarrow> if braced (py_strip body) then Some (py_strip body) else None)"

definition strategy3 :: "string \<Rightarrow> string option" where
  "strategy3 reply =
     (case find_at ''{'' reply of
        None \<Rightarrow> None
      | Some i \<Rightarrow>
         (case find (\<lambda>n. depth (take n (drop i reply)) = 0) [1 ..< Suc (length reply - i)] of
            None \<Rightarrow> None
          | Some n \<Rightarrow> Some (take n (drop i reply))))"

definition strategy4 :: "string \<Rightarrow> string option" where
  "strategy4 reply = (if braced (py_strip reply) then Some (py_strip reply) else None)"

fun first_match :: "'a option list \<Rightarrow> 'a option" where
  "first_match [] = None"
| "first_match (Some x # rest) = Some x"
| "first_match (None # rest) = first_match rest"

definition ladder :: "string \<Rightarrow> string option" where
  "ladder reply = first_match [strategy1 reply, strategy2 reply, strategy3 reply, strategy4 reply]"

section \<open>Rounding to double precision\<close>

lemma ilog2_bounds:
  "0 < n \<Longrightarrow> 0 \<le> ilog2 n \<and> 2 ^ nat (ilog2 n) \<le> n \<and> n < 2 * 2 ^ nat (ilog2 n)"
proof (induction n rule: ilog2.induct)
  case (1 n)
  show ?case
  proof (cases "n < 2")
    case True
    with 1(2) have "n = 1" by simp
    then show ?thesis by (simp add: ilog2.simps)
  next
    case False
    then have pos: "0 < n div 2" by simp
    from 1(1)[OF False pos]
    have IH: "0 \<le> ilog2 (n div 2)" "2 ^ nat (ilog2 (n div 2)) \<le> n div 2"
             "n div 2 < 2 * 2 ^ nat (ilog2 (n div 2))" by auto
    have e: "ilog2 n = 1 + ilog2 (n div 2)" using False by (subst ilog2.simps) simp
    have n: "nat (1 + ilog2 (n div 2)) = Suc (nat (ilog2 (n div 2)))" using IH(1) by simp
    show ?thesis unfolding e n using IH by simp linarith
  qed
qed

lemma pow2_powi: "pow2 e = 2 powi e"
  by (simp add: pow2_def power_int_def inverse_eq_divide power_one_over)

lemma pow2_pos: "0 < pow2 e"
  by (simp add: pow2_powi)

lemma pow2_add: "pow2 (a + b) = pow2 a * pow2 b"
  by (simp add: pow2_powi power_int_add)

lemma pow2_diff: "pow2 (a - b) = pow2 a / pow2 b"
  by (simp add: pow2_powi power_int_diff)

lemma pow2_mono: "a \<le> b \<Longrightarrow> pow2 a \<le> pow2 b"
  by (simp add: pow2_powi power_int_increasing)

lemma pow2_strict: "a < b \<Longrightarrow> pow2 a < pow2 b"
  by (simp add: pow2_powi power_int_strict_increasing)

lemma pow2_nat: "0 \<le> e \<Longrightarrow> pow2 e = 2 ^ nat e"
  by (simp add: pow2_def)

lemma pow2_less_imp: "pow2 a < pow2 b \<Longrightarrow> a < b"
  using pow2_mono [of b a] by (cases "a < b") auto

lemma binade_bounds:
  assumes "x \<noteq> 0"
  shows "pow2 (binade x) \<le> \<bar>x\<bar> \<and> \<bar>x\<bar> < pow2 (binade x + 1)"
proof (cases "1 \<le> \<bar>x\<bar>")
  case True
  define n where "n = \<lfloor>\<bar>x\<bar>\<rfloor>"
  have n1: "0 < n" using True by (simp add: n_def)
  have b: "binade x = ilog2 n" using True by (simp add: binade_def n_def)
  from ilog2_bounds [OF n1]
  have k: "0 \<le> ilog2 n" "2 ^ nat (ilog2 n) \<le> n" "n < 2 * 2 ^ nat (ilog2 n)" by auto
  have lo: "of_int n \<le> \<bar>x\<bar>" and hi: "\<bar>x\<bar> < of_int n + 1" by (simp_all add: n_def)
  have r: "(2::real) ^ nat (ilog2 n) \<le> of_int n" using k(2) by simp
  have p: "pow2 (ilog2 n) = 2 ^ nat (ilog2 n)" using k(1) by (rule pow2_nat)
  have A: "pow2 (ilog2 n) \<le> \<bar>x\<bar>" unfolding p using r lo by linarith
  have "n + 1 \<le> 2 * 2 ^ nat (ilog2 n)" using k(3) by simp
  then have "(of_int (n + 1) :: real) \<le> of_int (2 * 2 ^ nat (ilog2 n))" by (simp only: of_int_le_iff)
  then have "of_int n + 1 \<le> (2::real) * 2 ^ nat (ilog2 n)" by simp
  then have "\<bar>x\<bar> < 2 * 2 ^ nat (ilog2 n)" using hi by linarith
  moreover have "pow2 (ilog2 n + 1) = 2 * 2 ^ nat (ilog2 n)"
    using k(1) by (simp add: pow2_add pow2_nat)
  ultimately show ?thesis using A b by simp
next
  case False
  define a where "a = \<bar>x\<bar>"
  have a: "0 < a" "a < 1" using False assms by (simp_all add: a_def)
  define m where "m = \<lceil>1 / a\<rceil> - 1"
  have y1: "1 < 1 / a" using a by simp
  have m1: "0 < m" using y1 unfolding m_def by linarith
  have b: "binade x = - (1 + ilog2 m)" using False by (simp add: binade_def m_def a_def)
  from ilog2_bounds [OF m1]
  have k: "0 \<le> ilog2 m" "2 ^ nat (ilog2 m) \<le> m" "m < 2 * 2 ^ nat (ilog2 m)" by auto
  have lo: "of_int m < 1 / a" and hi: "1 / a \<le> of_int m + 1"
    unfolding m_def by linarith+
  have r: "(2::real) ^ nat (ilog2 m) \<le> of_int m" using k(2) by simp
  have "(2::real) ^ nat (ilog2 m) < 1 / a" using r lo by linarith
  then have U: "a < 1 / 2 ^ nat (ilog2 m)" using a by (simp add: field_simps)
  have "m + 1 \<le> 2 * 2 ^ nat (ilog2 m)" using k(3) by simp
  then have "(of_int (m + 1) :: real) \<le> of_int (2 * 2 ^ nat (ilog2 m))" by (simp only: of_int_le_iff)
  then have "of_int m + 1 \<le> (2::real) * 2 ^ nat (ilog2 m)" by simp
  then have "1 / a \<le> 2 * 2 ^ nat (ilog2 m)" using hi by linarith
  then have L: "1 / (2 * 2 ^ nat (ilog2 m)) \<le> a" using a by (simp add: field_simps)
  have p1: "pow2 (- (1 + ilog2 m)) = 1 / (2 * 2 ^ nat (ilog2 m))"
    using k(1) by (simp add: pow2_def nat_add_distrib)
  have p2: "pow2 (- (1 + ilog2 m) + 1) = 1 / 2 ^ nat (ilog2 m)"
    using k(1) by (cases "ilog2 m = 0") (simp_all add: pow2_def)
  show ?thesis unfolding b p1 p2 using L U by (simp add: a_def)
qed

lemma binade_unique:
  assumes "pow2 e \<le> \<bar>x\<bar>" "\<bar>x\<bar> < pow2 (e + 1)"
  shows "binade x = e"
proof -
  have nz: "x \<noteq> 0" using assms(1) pow2_pos [of e] by auto
  from binade_bounds [OF nz]
  have b: "pow2 (binade x) \<le> \<bar>x\<bar>" "\<bar>x\<bar> < pow2 (binade x + 1)" by auto
  have "pow2 e < pow2 (binade x + 1)" using assms(1) b(2) by simp
  then have 1: "e < binade x + 1" by (rule pow2_less_imp)
  have "pow2 (binade x) < pow2 (e + 1)" using assms(2) b(1) by simp
  then have 2: "binade x < e + 1" by (rule pow2_less_imp)
  from 1 2 show ?thesis by simp
qed

lemma rhe_err: "\<bar>of_int (round_half_even y) - y\<bar> \<le> 1 / 2"
  unfolding round_half_even_def Let_def by (auto; linarith)

lemma rhe_int: "round_half_even (of_int k) = k"
  by (simp add: round_half_even_def)

lemma rhe_mono:
  assumes "x \<le> y"
  shows "round_half_even x \<le> round_half_even y"
proof (rule ccontr)
  assume "\<not> ?thesis"
  then have gt: "round_half_even y + 1 \<le> round_half_even x" by simp
  then have "(of_int (round_half_even y + 1) :: real) \<le> of_int (round_half_even x)"
    by (simp only: of_int_le_iff)
  then have "of_int (round_half_even y) + 1 \<le> (of_int (round_half_even x) :: real)" by simp
  with rhe_err [of x] rhe_err [of y] assms have "x = y" by linarith
  with gt show False by simp
qed

lemma to_double_zero: "to_double 0 = 0"
  by (simp add: to_double_def)

lemma to_double_scaled:
  "x \<noteq> 0 \<Longrightarrow>
   to_double x = of_int (round_half_even (x * pow2 (52 - binade x))) * pow2 (binade x - 52)"
  by (simp add: to_double_def)

lemma scale_back: "x * pow2 (52 - e) * pow2 (e - 52) = x"
proof -
  have "pow2 (52 - e) * pow2 (e - 52) = pow2 0" by (simp add: pow2_add [symmetric])
  then show ?thesis by (simp add: pow2_def mult.assoc)
qed

lemma to_double_err:
  assumes "x \<noteq> 0"
  shows "\<bar>to_double x - x\<bar> \<le> pow2 (binade x - 53)"
proof -
  define e where "e = binade x"
  define s where "s = x * pow2 (52 - e)"
  have t: "to_double x = of_int (round_half_even s) * pow2 (e - 52)"
    using assms by (simp add: to_double_scaled e_def s_def)
  have xs: "s * pow2 (e - 52) = x" by (simp add: s_def scale_back)
  have "to_double x - x = of_int (round_half_even s) * pow2 (e - 52) - s * pow2 (e - 52)"
    by (simp only: t xs)
  also have "\<dots> = (of_int (round_half_even s) - s) * pow2 (e - 52)"
    by (simp add: algebra_simps)
  finally have "\<bar>to_double x - x\<bar> = \<bar>of_int (round_half_even s) - s\<bar> * pow2 (e - 52)"
    using pow2_pos [of "e - 52"] by (simp add: abs_mult)
  also have "\<dots> \<le> (1 / 2) * pow2 (e - 52)"
    using rhe_err [of s] pow2_pos [of "e - 52"] by (simp add: mult_right_mono)
  also have "(1 / 2) * pow2 (e - 52) = pow2 (e - 53)"
  proof -
    have "pow2 (e - 52) = pow2 (e - 53) * pow2 1" by (simp add: pow2_add [symmetric])
    then show ?thesis by (simp add: pow2_def)
  qed
  finally show ?thesis by (simp add: e_def)
qed

lemma to_double_rel: "\<bar>to_double x - x\<bar> \<le> \<bar>x\<bar> / 2 ^ 53"
proof (cases "x = 0")
  case True
  then show ?thesis by (simp add: to_double_zero)
next
  case False
  have "pow2 (binade x - 53) = pow2 (binade x) / 2 ^ 53"
    by (simp add: pow2_diff) (simp add: pow2_def)
  also have "\<dots> \<le> \<bar>x\<bar> / 2 ^ 53"
    using binade_bounds [OF False] by (simp add: divide_right_mono)
  finally show ?thesis using to_double_err [OF False] by simp
qed

lemma to_double_nonneg: "0 \<le> x \<Longrightarrow> 0 \<le> to_double x"
proof (cases "x = 0")
  case True
  then show ?thesis by (simp add: to_double_zero)
next
  case False
  assume "0 \<le> x"
  then have "0 \<le> x * pow2 (52 - binade x)" using pow2_pos [of "52 - binade x"] by simp
  from rhe_mono [OF this] have "0 \<le> round_half_even (x * pow2 (52 - binade x))"
    using rhe_int [of 0] by simp
  then show ?thesis using False pow2_pos [of "binade x - 52"] by (simp add: to_double_scaled)
qed

lemma to_double_nonpos: "x \<le> 0 \<Longrightarrow> to_double x \<le> 0"
proof (cases "x = 0")
  case True
  then show ?thesis by (simp add: to_double_zero)
next
  case False
  assume "x \<le> 0"
  then have "x * pow2 (52 - binade x) \<le> 0"
    using pow2_pos [of "52 - binade x"] by (simp add: mult_le_0_iff)
  from rhe_mono [OF this] have "round_half_even (x * pow2 (52 - binade x)) \<le> 0"
    using rhe_int [of 0] by simp
  then show ?thesis using False pow2_pos [of "binade x - 52"]
    by (simp add: to_double_scaled mult_le_0_iff)
qed

lemma to_double_range:
  assumes "0 < x"
  shows "pow2 (binade x) \<le> to_double x \<and> to_double x \<le> pow2 (binade x + 1)"
proof -
  define e where "e = binade x"
  define s where "s = x * pow2 (52 - e)"
  have nz: "x \<noteq> 0" using assms by simp
  from binade_bounds [OF nz] assms
  have b: "pow2 e \<le> x" "x < pow2 (e + 1)" by (simp_all add: e_def)
  have p: "0 < pow2 (52 - e)" by (rule pow2_pos)
  have "pow2 e * pow2 (52 - e) \<le> s" unfolding s_def using b(1) p by (simp add: mult_right_mono)
  moreover have "pow2 e * pow2 (52 - e) = of_int (2 ^ 52)"
    by (simp add: pow2_add [symmetric]) (simp add: pow2_def)
  ultimately have "of_int (2 ^ 52) \<le> s" by simp
  from rhe_mono [OF this] have lo: "2 ^ 52 \<le> round_half_even s" by (simp only: rhe_int)
  have "s \<le> pow2 (e + 1) * pow2 (52 - e)" unfolding s_def using b(2) p by (simp add: mult_right_mono)
  moreover have "pow2 (e + 1) * pow2 (52 - e) = of_int (2 ^ 53)"
    by (simp add: pow2_add [symmetric]) (simp add: pow2_def)
  ultimately have "s \<le> of_int (2 ^ 53)" by simp
  from rhe_mono [OF this] have hi: "round_half_even s \<le> 2 ^ 53" by (simp only: rhe_int)
  have q: "0 < pow2 (e - 52)" by (rule pow2_pos)
  have t: "to_double x = of_int (round_half_even s) * pow2 (e - 52)"
    using nz by (simp add: to_double_scaled e_def s_def)
  have "(of_int (2 ^ 52) :: real) \<le> of_int (round_half_even s)" using lo by (simp only: of_int_le_iff)
  then have "of_int (2 ^ 52) * pow2 (e - 52) \<le> to_double x" unfolding t using q
    by (simp only: mult_right_mono less_imp_le)
  moreover have "of_int (2 ^ 52) * pow2 (e - 52) = pow2 e"
  proof -
    have "pow2 e = pow2 52 * pow2 (e - 52)" by (simp add: pow2_add [symmetric])
    then show ?thesis by (simp add: pow2_def)
  qed
  ultimately have L: "pow2 e \<le> to_double x" by simp
  have "(of_int (round_half_even s) :: real) \<le> of_int (2 ^ 53)" using hi by (simp only: of_int_le_iff)
  then have "to_double x \<le> of_int (2 ^ 53) * pow2 (e - 52)" unfolding t using q
    by (simp only: mult_right_mono less_imp_le)
  moreover have "of_int (2 ^ 53) * pow2 (e - 52) = pow2 (e + 1)"
  proof -
    have "pow2 (e + 1) = pow2 (53 + (e - 52))" by (simp add: add.commute)
    also have "\<dots> = pow2 53 * pow2 (e - 52)" by (rule pow2_add)
    finally show ?thesis by (simp add: pow2_def)
  qed
  ultimately have U: "to_double x \<le> pow2 (e + 1)" by simp
  from L U show ?thesis by (simp add: e_def)
qed

lemma to_double_mono_pos:
  assumes "0 < x" "x \<le> y"
  shows "to_double x \<le> to_double y"
proof -
  have y: "0 < y" using assms by simp
  have nx: "x \<noteq> 0" and ny: "y \<noteq> 0" using assms by simp_all
  from binade_bounds [OF nx] assms(1)
  have bx: "pow2 (binade x) \<le> x" "x < pow2 (binade x + 1)" by simp_all
  from binade_bounds [OF ny] y
  have b_y: "pow2 (binade y) \<le> y" "y < pow2 (binade y + 1)" by simp_all
  have "pow2 (binade x) < pow2 (binade y + 1)" using bx(1) assms(2) b_y(2) by simp
  then have le: "binade x \<le> binade y" using pow2_less_imp by fastforce
  show ?thesis
  proof (cases "binade x = binade y")
    case True
    have "x * pow2 (52 - binade y) \<le> y * pow2 (52 - binade y)"
      using assms(2) pow2_pos [of "52 - binade y"] by (simp add: mult_right_mono)
    from rhe_mono [OF this]
    have "(of_int (round_half_even (x * pow2 (52 - binade y))) :: real)
            \<le> of_int (round_half_even (y * pow2 (52 - binade y)))"
      by (simp only: of_int_le_iff)
    then show ?thesis using nx ny True pow2_pos [of "binade y - 52"]
      by (simp add: to_double_scaled mult_right_mono)
  next
    case False
    with le have "binade x + 1 \<le> binade y" by simp
    then have "pow2 (binade x + 1) \<le> pow2 (binade y)" by (rule pow2_mono)
    with to_double_range [OF assms(1)] to_double_range [OF y] show ?thesis by linarith
  qed
qed

lemma to_double_mono:
  assumes "0 \<le> x" "x \<le> y"
  shows "to_double x \<le> to_double y"
proof (cases "x = 0")
  case True
  then show ?thesis using assms to_double_nonneg [of y] by (simp add: to_double_zero)
next
  case False
  then show ?thesis using assms to_double_mono_pos [of x y] by simp
qed

lemma to_double_int:
  assumes "\<bar>n\<bar> < 2 ^ 53"
  shows "to_double (of_int n) = of_int n"
proof (cases "n = 0")
  case True
  then show ?thesis by (simp add: to_double_zero)
next
  case False
  define e where "e = binade (of_int n)"
  have nz: "(of_int n :: real) \<noteq> 0" using False by simp
  from binade_bounds [OF nz] have "pow2 e \<le> \<bar>of_int n\<bar>" by (simp add: e_def)
  also have "\<bar>of_int n :: real\<bar> = of_int \<bar>n\<bar>" by simp
  also have "(of_int \<bar>n\<bar> :: real) < of_int (2 ^ 53)" using assms by (simp only: of_int_less_iff)
  also have "(of_int (2 ^ 53) :: real) = pow2 53" by (simp add: pow2_def)
  finally have "e < 53" by (rule pow2_less_imp)
  then have e: "0 \<le> 52 - e" by simp
  have "of_int n * pow2 (52 - e) = (of_int (n * 2 ^ nat (52 - e)) :: real)"
    using e by (simp add: pow2_nat)
  then have "round_half_even (of_int n * pow2 (52 - e)) = n * 2 ^ nat (52 - e)"
    by (simp only: rhe_int)
  then have "to_double (of_int n) = of_int n * pow2 (52 - e) * pow2 (e - 52)"
    using nz e by (simp add: to_double_scaled e_def pow2_nat)
  then show ?thesis by (simp only: scale_back)
qed

lemma to_double_near:
  assumes "0 \<le> x"
  shows "to_double x \<le> x + x / 2 ^ 53" and "x - x / 2 ^ 53 \<le> to_double x"
proof -
  have "\<bar>to_double x - x\<bar> \<le> x / 2 ^ 53" using to_double_rel [of x] assms by simp
  then show "to_double x \<le> x + x / 2 ^ 53" and "x - x / 2 ^ 53 \<le> to_double x"
    by linarith+
qed

section \<open>The answer evaluator\<close>

lemma startswith_Nil [simp]: "startswith s []"
  by (cases s) simp_all

lemma py_in_Nil [simp]: "py_in [] s"
  by (induction s) simp_all

text \<open>
  C10. A short-answer question without keywords (null or the empty list) whose correct
  answer is empty after trimming is evaluated correct for every response text, the empty
  one included: the empty string occurs in every string.
\<close>

theorem short_answer_empty_correct_answer_always_correct:
  assumes "question_type q = SHORT_ANSWER"
    and "question_keywords q = KwNull \<or> question_keywords q = KwList []"
    and "py_strip (correct_answer q) = []"
  shows "evaluate_answer q r"
  using assms by (auto simp: evaluate_answer_def py_lower_def)

theorem short_answer_empty_correct_answer_witness:
  "evaluate_answer (mk_question SHORT_ANSWER ''  '' (KwList [])) ''''
   \<and> evaluate_answer (mk_question SHORT_ANSWER '''' KwNull) ''anything''"
proof -
  have a: "py_strip ''  '' = []" by code_simp
  have b: "py_strip '''' = []" by code_simp
  show ?thesis
    using short_answer_empty_correct_answer_always_correct
        [of "mk_question SHORT_ANSWER ''  '' (KwList [])" "''''"]
      short_answer_empty_correct_answer_always_correct
        [of "mk_question SHORT_ANSWER '''' KwNull" "''anything''"]
      a b by (simp add: mk_question_def)
qed

lemma count_matches_lower:
  "count_matches (map py_lower ks) (py_lower (py_strip r)) = keyword_hits ks r"
  by (simp add: count_matches_def keyword_hits_def filter_map comp_def sum_list_triv)

text \<open>
  C4. The evaluation policy by question type. Multiple and single choice: the trimmed,
  lowercased response equals the trimmed, lowercased correct answer. Short answer with a
  non-empty keyword list: at least half of the keywords (real-number comparison) occur
  in the trimmed, lowercased response; without keywords: the trimmed, lowercased correct
  answer occurs in the trimmed, lowercased response or the other way round. Essay with a
  non-empty keyword list: the number of keywords that occur is at least
  \<open>max(1, len(keywords) * 0.3)\<close>; without keywords: the trimmed response has at least
  50 characters. A submission replies with the evaluator's verdict and the score 100
  for correct and 0 otherwise.
\<close>

theorem evaluate_answer_policy:
  "(question_type q \<in> {MULTIPLE_CHOICE, SINGLE_CHOICE} \<longrightarrow>
      evaluate_answer q r = (py_lower (py_strip r) = py_lower (py_strip (correct_answer q))))
   \<and> (question_type q = SHORT_ANSWER \<and> question_keywords q = KwList ks \<and> ks \<noteq> [] \<longrightarrow>
      evaluate_answer q r = (real (keyword_hits ks r) \<ge> real (length ks) * 0.5))
   \<and> (question_type q = SHORT_ANSWER \<and> no_keywords q \<longrightarrow>
      evaluate_answer q r =
        (py_in (py_lower (py_strip (correct_answer q))) (py_lower (py_strip r))
         \<or> py_in (py_lower (py_strip r)) (py_lower (py_strip (correct_answer q)))))
   \<and> (question_type q = ESSAY \<and> question_keywords q = KwList ks \<and> ks \<noteq> [] \<longrightarrow>
      evaluate_answer q r = (real (keyword_hits ks r) \<ge> max 1 (real (length ks) * 0.3)))
   \<and> (question_type q = ESSAY \<and> no_keywords q \<longrightarrow>
      evaluate_answer q r = (length (py_strip r) \<ge> 50))
   \<and> (find (\<lambda>x. question_id x = qid) (question_rows db) = Some q \<longrightarrow>
      (\<exists>db'. submit_answer db qid sid r rtime conf now =
          Inr (db', \<lparr>reply_is_correct = evaluate_answer q r,
                     reply_score = (if evaluate_answer q r then 100 else 0),
                     reply_explanation = explanation q\<rparr>)))"
  by (auto simp: evaluate_answer_def no_keywords_def count_matches_lower submit_answer_def Let_def)

theorem evaluate_answer_policy_witness:
  "evaluate_answer (mk_question MULTIPLE_CHOICE ''paris'' KwNull) '' Paris ''
   \<and> evaluate_answer (mk_question SHORT_ANSWER ''atp''
        (KwList [''mitochondria'', ''energy''])) ''The Mitochondria''
   \<and> \<not> evaluate_answer (mk_question SHORT_ANSWER ''atp''
        (KwList [''mitochondria'', ''energy'', ''cell''])) ''The Mitochondria''
   \<and> evaluate_answer (mk_question SHORT_ANSWER ''Paris'' (KwList [])) '' it is paris ''
   \<and> \<not> evaluate_answer (mk_question ESSAY ''''
        (KwList [''a'', ''b'', ''c'', ''d''])) ''xyz''
   \<and> evaluate_answer (mk_question ESSAY ''''
        (KwList [''a'', ''b'', ''c'', ''d''])) ''bad''
   \<and> \<not> evaluate_answer (mk_question ESSAY '''' KwNull) ''too short''
   \<and> (\<exists>db'. submit_answer (one_question_db (mk_question MULTIPLE_CHOICE ''paris'' KwNull))
          1 ''s1'' '' Paris '' None None 0
        = Inr (db', \<lparr>reply_is_correct = True, reply_score = 100, reply_explanation = None\<rparr>))"
proof -
  let ?mc = "mk_question MULTIPLE_CHOICE ''paris'' KwNull"
  have 1: "evaluate_answer ?mc '' Paris ''"
  proof -
    have "py_lower (py_strip '' Paris '') = py_lower (py_strip ''paris'')" by code_simp
    with evaluate_answer_policy [of ?mc "'' Paris ''"] show ?thesis
      by (simp add: mk_question_def)
  qed
  have 2: "evaluate_answer (mk_question SHORT_ANSWER ''atp''
        (KwList [''mitochondria'', ''energy''])) ''The Mitochondria''"
  proof -
    have "real (keyword_hits [''mitochondria'', ''energy''] ''The Mitochondria'')
            \<ge> real (length [''mitochondria'', ''energy'']) * 0.5" by code_simp
    with evaluate_answer_policy [of "mk_question SHORT_ANSWER ''atp''
        (KwList [''mitochondria'', ''energy''])" "''The Mitochondria''" "[''mitochondria'', ''energy'']"]
    show ?thesis by (simp add: mk_question_def)
  qed
  have 3: "\<not> evaluate_answer (mk_question SHORT_ANSWER ''atp''
        (KwList [''mitochondria'', ''energy'', ''cell''])) ''The Mitochondria''"
  proof -
    have "\<not> real (keyword_hits [''mitochondria'', ''energy'', ''cell''] ''The Mitochondria'')
            \<ge> real (length [''mitochondria'', ''energy'', ''cell'']) * 0.5" by code_simp
    with evaluate_answer_policy [of "mk_question SHORT_ANSWER ''atp''
        (KwList [''mitochondria'', ''energy'', ''cell''])" "''The Mitochondria''"
        "[''mitochondria'', ''energy'', ''cell'']"]
    show ?thesis by (simp add: mk_question_def)
  qed
  have 4: "evaluate_answer (mk_question SHORT_ANSWER ''Paris'' (KwList [])) '' it is paris ''"
  proof -
    have "py_in (py_lower (py_strip ''Paris'')) (py_lower (py_strip '' it is paris ''))"
      by code_simp
    with evaluate_answer_policy [of "mk_question SHORT_ANSWER ''Paris'' (KwList [])"
        "'' it is paris ''"]
    show ?thesis by (simp add: mk_question_def no_keywords_def)
  qed
  have 5: "\<not> evaluate_answer (mk_question ESSAY ''''
        (KwList [''a'', ''b'', ''c'', ''d''])) ''xyz''"
  proof -
    have "\<not> real (keyword_hits [''a'', ''b'', ''c'', ''d''] ''xyz'')
            \<ge> max 1 (real (length [''a'', ''b'', ''c'', ''d'']) * 0.3)" by code_simp
    with evaluate_answer_policy [of "mk_question ESSAY '''' (KwList [''a'', ''b'', ''c'', ''d''])"
        "''xyz''" "[''a'', ''b'', ''c'', ''d'']"]
    show ?thesis by (simp add: mk_question_def)
  qed
  have 6: "evaluate_answer (mk_question ESSAY ''''
        (KwList [''a'', ''b'', ''c'', ''d''])) ''bad''"
  proof -
    have "real (keyword_hits [''a'', ''b'', ''c'', ''d''] ''bad'')
            \<ge> max 1 (real (length [''a'', ''b'', ''c'', ''d'']) * 0.3)" by code_simp
    with evaluate_answer_policy [of "mk_question ESSAY '''' (KwList [''a'', ''b'', ''c'', ''d''])"
        "''bad''" "[''a'', ''b'', ''c'', ''d'']"]
    show ?thesis by (simp add: mk_question_def)
  qed
  have 7: "\<not> evaluate_answer (mk_question ESSAY '''' KwNull) ''too short''"
  proof -
    have "\<not> length (py_strip ''too short'') \<ge> 50" by code_simp
    with evaluate_answer_policy [of "mk_question ESSAY '''' KwNull" "''too short''"]
    show ?thesis by (simp add: mk_question_def no_keywords_def)
  qed
  have 8: "\<exists>db'. submit_answer (one_question_db ?mc) 1 ''s1'' '' Paris '' None None 0
        = Inr (db', \<lparr>reply_is_correct = True, reply_score = 100, reply_explanation = None\<rparr>)"
  proof -
    have "find (\<lambda>x. question_id x = 1) (question_rows (one_question_db ?mc)) = Some ?mc"
      by (simp add: one_question_db_def mk_question_def)
    with evaluate_answer_policy [of ?mc "'' Paris ''" _ 1 "one_question_db ?mc" "''s1''" None None 0] 1
    show ?thesis by (auto simp: mk_question_def)
  qed
  from 1 2 3 4 5 6 7 8 show ?thesis by blast
qed

section \<open>The rolling correct rate\<close>

lemma py_int_nonneg: "0 \<le> x \<Longrightarrow> py_int x = \<lfloor>x\<rfloor>"
  by (simp add: py_int_def)

lemma float_of_int_small: "\<bar>n\<bar> < 2 ^ 53 \<Longrightarrow> float_of_int n = of_int n"
  by (simp add: float_of_int_def to_double_int)

lemma find_map_replace:
  "find (\<lambda>x. question_id x = k) rows = Some q \<Longrightarrow> question_id q2 = k \<Longrightarrow>
   find (\<lambda>x. question_id x = k) (map (\<lambda>x. if question_id x = question_id q2 then q2 else x) rows) = Some q2"
  by (induction rows) (auto split: if_splits)

lemma update_correct_rate_id [simp]: "question_id (update_correct_rate q db) = question_id q"
  by (simp add: update_correct_rate_def Let_def)

lemma find_Some_id: "find (\<lambda>x. question_id x = k) rows = Some q \<Longrightarrow> question_id q = k"
  by (induction rows) (auto split: if_splits)

lemma percent_error:
  assumes "c \<le> t" "0 < t"
  shows "\<bar>fmul (int_truediv (int c) (int t)) (float_of_int 100) - 100 * real c / real t\<bar>
           \<le> 1 / 2 ^ 44"
proof -
  define x where "x = real c / real t"
  define u where "u = 1 / (2::real) ^ 53"
  have u: "0 \<le> u" "u \<le> 1" by (simp_all add: u_def)
  have x: "0 \<le> x" "x \<le> 1" using assms by (simp_all add: x_def)
  define q where "q = to_double x"
  have "x / 2 ^ 53 \<le> 1 / 2 ^ 53" using x(2) by (simp add: divide_right_mono)
  then have q1: "\<bar>q - x\<bar> \<le> u" using to_double_rel [of x] x(1) by (simp add: q_def u_def)
  have q0: "0 \<le> q" using to_double_nonneg [OF x(1)] by (simp add: q_def)
  have q2: "q * 100 \<le> 200" using q1 x u by linarith
  define p where "p = to_double (q * 100)"
  have "(q * 100) / 2 ^ 53 \<le> 200 / 2 ^ 53" using q2 by (simp only: divide_right_mono zero_le_power zero_le_numeral)
  then have p1: "\<bar>p - q * 100\<bar> \<le> 200 * u"
    using to_double_rel [of "q * 100"] q0 by (simp add: p_def u_def)
  have e: "fmul (int_truediv (int c) (int t)) (float_of_int 100) = p"
    by (simp add: fmul_def int_truediv_def float_of_int_small p_def q_def x_def)
  have "\<bar>p - 100 * x\<bar> \<le> 512 * u" using q1 p1 q0 by linarith
  moreover have "512 * u = 1 / 2 ^ 44" by (simp add: u_def)
  ultimately show ?thesis unfolding e by (simp add: x_def)
qed

lemma percent_floor:
  assumes "c \<le> t" "0 < t" "t < 2 ^ 40"
  shows "\<lfloor>100 * real c / real t\<rfloor> - 1
           \<le> py_int (fmul (int_truediv (int c) (int t)) (float_of_int 100))"
    and "py_int (fmul (int_truediv (int c) (int t)) (float_of_int 100))
           \<le> \<lfloor>100 * real c / real t\<rfloor>"
    and "\<not> t dvd 100 * c \<Longrightarrow>
         py_int (fmul (int_truediv (int c) (int t)) (float_of_int 100))
           = \<lfloor>100 * real c / real t\<rfloor>"
proof -
  define p where "p = fmul (int_truediv (int c) (int t)) (float_of_int 100)"
  define k where "k = (100 * c) div t"
  define m where "m = (100 * c) mod t"
  define X where "X = 100 * real c / real t"
  have t: "0 < real t" using assms(2) by simp
  have "100 * c = k * t + m" by (simp add: k_def m_def)
  then have "real (100 * c) = real (k * t + m)" by (simp only:)
  then have "100 * real c = real k * real t + real m" by simp
  then have X: "X = real k + real m / real t" using t by (simp add: X_def field_simps)
  have fl: "\<lfloor>X\<rfloor> = int k"
    using floor_divide_of_nat_eq [of "100 * c" t, where ?'a = real] by (simp add: X_def k_def)
  have "m < t" using assms(2) by (simp add: m_def)
  then have "real m \<le> real t - 1" by linarith
  then have "real m / real t \<le> (real t - 1) / real t" using t by (simp add: divide_right_mono)
  then have m_le: "real m / real t \<le> 1 - 1 / real t" using t by (simp add: field_simps)
  have "real t < 2 ^ 40" using assms(3) by (metis of_nat_less_iff of_nat_numeral of_nat_power)
  then have "1 / 2 ^ 40 < 1 / real t" using t by (simp add: field_simps)
  moreover define ee where "ee = 1 / (2::real) ^ 44"
  ultimately have d: "ee < 1 / real t" by simp
  have m0: "0 \<le> real m / real t" by simp
  have p0: "0 \<le> p"
    by (simp add: p_def fmul_def int_truediv_def float_of_int_def to_double_nonneg)
  have err: "\<bar>p - X\<bar> \<le> ee"
    using percent_error [OF assms(1,2)] by (simp add: p_def X_def ee_def)
  have e1: "ee \<le> 1" by (simp add: ee_def)
  have "p < real k + 1" using err X m_le d by linarith
  then have "p < of_int (int k + 1)" by simp
  then have "\<lfloor>p\<rfloor> < int k + 1" by (simp only: floor_less_iff)
  then have up: "\<lfloor>p\<rfloor> \<le> int k" by simp
  have "real k - 1 \<le> p" using err X m0 e1 by linarith
  then have "of_int (int k - 1) \<le> p" by simp
  then have lo: "int k - 1 \<le> \<lfloor>p\<rfloor>" by (simp only: le_floor_iff)
  show "\<lfloor>100 * real c / real t\<rfloor> - 1
           \<le> py_int (fmul (int_truediv (int c) (int t)) (float_of_int 100))"
    using lo fl p0 by (simp add: py_int_nonneg p_def [symmetric] X_def [symmetric])
  show "py_int (fmul (int_truediv (int c) (int t)) (float_of_int 100))
           \<le> \<lfloor>100 * real c / real t\<rfloor>"
    using up fl p0 by (simp add: py_int_nonneg p_def [symmetric] X_def [symmetric])
  show "py_int (fmul (int_truediv (int c) (int t)) (float_of_int 100))
           = \<lfloor>100 * real c / real t\<rfloor>" if "\<not> t dvd 100 * c"
  proof -
    have "0 < m" using that by (simp add: m_def dvd_eq_mod_eq_0)
    then have "1 \<le> real m" by simp
    then have "1 / real t \<le> real m / real t" using t by (simp add: divide_right_mono)
    then have "real k \<le> p" using err X d by linarith
    then have "of_int (int k) \<le> p" by simp
    then have "int k \<le> \<lfloor>p\<rfloor>" by (simp only: le_floor_iff)
    with up have "\<lfloor>p\<rfloor> = int k" by simp
    then show ?thesis using fl p0 by (simp add: py_int_nonneg p_def [symmetric] X_def [symmetric])
  qed
qed

lemma correct_count_as_sum:
  "sum_list (map (\<lambda>r. 1) (filter (\<lambda>r. is_correct r = Some True) rs)) = int (correct_count rs)"
  by (simp add: correct_count_def sum_list_triv)

lemma correct_count_le: "correct_count rs \<le> length rs"
  by (simp add: correct_count_def)

lemma update_correct_rate_known:
  "correct_rate (update_correct_rate q db) =
     (if known_responses q db = [] then correct_rate q
      else Some (py_int (fmul (int_truediv (int (correct_count (known_responses q db)))
                                           (int (length (known_responses q db))))
                              (float_of_int 100))))"
  unfolding update_correct_rate_def known_responses_def [symmetric]
  by (simp add: Let_def correct_count_as_sum)

text \<open>
  C5, as stated, fails: with 2 correct of 3 known responses the stored rate is 66, not
  \<open>round(200/3) = 67\<close>; the rate is cut off by \<open>int\<close>, not rounded.
\<close>

theorem correct_rate_rounding_counterexample:
  "correct_rate (update_correct_rate (mk_question MULTIPLE_CHOICE ''paris'' KwNull)
       three_responses_db) = Some 66
   \<and> length (known_responses (mk_question MULTIPLE_CHOICE ''paris'' KwNull) three_responses_db) = 3
   \<and> correct_count
        (known_responses (mk_question MULTIPLE_CHOICE ''paris'' KwNull) three_responses_db) = 2
   \<and> round (100 * 2 / 3 :: real) = 67"
proof (intro conjI)
  show "correct_rate (update_correct_rate (mk_question MULTIPLE_CHOICE ''paris'' KwNull)
       three_responses_db) = Some 66"
    by code_simp
  show "length (known_responses (mk_question MULTIPLE_CHOICE ''paris'' KwNull) three_responses_db) = 3"
    by code_simp
  show "correct_count
        (known_responses (mk_question MULTIPLE_CHOICE ''paris'' KwNull) three_responses_db) = 2"
    by code_simp
  show "round (100 * 2 / 3 :: real) = 67"
    by (simp add: round_def)
qed

text \<open>
  C5, amended. \<open>_update_correct_rate\<close> recomputes the rate over all responses to the
  question with known correctness that its query returns, as
  \<open>int((correct_count / total_count) * 100)\<close> in double precision, and leaves the rate as
  it was when the query returns none. The rate is truncated, not rounded: for fewer than
  \<open>2 ^ 40\<close> such responses it is the integer part of \<open>100 * correct_count / total_count\<close>
  when this quotient is not a whole number, and the quotient or one less when it is. A
  submission stores the rate so computed in the session to which the new response has
  been added.
\<close>

theorem correct_rate_truncated:
  "correct_rate (update_correct_rate q db) =
     (if known_responses q db = [] then correct_rate q
      else Some (py_int (fmul (int_truediv (int (correct_count (known_responses q db)))
                                           (int (length (known_responses q db))))
                              (float_of_int 100))))
   \<and> (known_responses q db \<noteq> [] \<and> length (known_responses q db) < 2 ^ 40 \<longrightarrow>
        (\<exists>r. correct_rate (update_correct_rate q db) = Some r
           \<and> \<lfloor>100 * real (correct_count (known_responses q db))
                 / real (length (known_responses q db))\<rfloor> - 1 \<le> r
           \<and> r \<le> \<lfloor>100 * real (correct_count (known_responses q db))
                     / real (length (known_responses q db))\<rfloor>
           \<and> (\<not> length (known_responses q db) dvd 100 * correct_count (known_responses q db)
                \<longrightarrow> r = \<lfloor>100 * real (correct_count (known_responses q db))
                            / real (length (known_responses q db))\<rfloor>)))
   \<and> (find (\<lambda>x. question_id x = qid) (question_rows db) = Some q \<longrightarrow>
       (\<exists>db' reply resp q'.
          submit_answer db qid sid text rtime conf now = Inr (db', reply)
          \<and> response_question_id resp = qid \<and> response_text resp = text
          \<and> is_correct resp = Some (evaluate_answer q text)
          \<and> find (\<lambda>x. question_id x = qid) (question_rows db') = Some q'
          \<and> correct_rate q' = correct_rate (update_correct_rate q (db\<lparr>pending := pending db @ [resp]\<rparr>))))"
proof (intro conjI impI)
  show "correct_rate (update_correct_rate q db) =
     (if known_responses q db = [] then correct_rate q
      else Some (py_int (fmul (int_truediv (int (correct_count (known_responses q db)))
                                           (int (length (known_responses q db))))
                              (float_of_int 100))))"
    by (rule update_correct_rate_known)
next
  let ?ks = "known_responses q db"
  assume "?ks \<noteq> [] \<and> length ?ks < 2 ^ 40"
  then have n: "?ks \<noteq> []" and pos: "0 < length ?ks" and b: "length ?ks < 2 ^ 40" by simp_all
  note f = percent_floor [OF correct_count_le [of ?ks] pos b]
  have "correct_rate (update_correct_rate q db)
      = Some (py_int (fmul (int_truediv (int (correct_count ?ks)) (int (length ?ks)))
                           (float_of_int 100)))"
    using n by (simp add: update_correct_rate_known)
  then show "\<exists>r. correct_rate (update_correct_rate q db) = Some r
           \<and> \<lfloor>100 * real (correct_count ?ks) / real (length ?ks)\<rfloor> - 1 \<le> r
           \<and> r \<le> \<lfloor>100 * real (correct_count ?ks) / real (length ?ks)\<rfloor>
           \<and> (\<not> length ?ks dvd 100 * correct_count ?ks
                \<longrightarrow> r = \<lfloor>100 * real (correct_count ?ks) / real (length ?ks)\<rfloor>)"
    using f by blast
next
  assume f: "find (\<lambda>x. question_id x = qid) (question_rows db) = Some q"
  let ?q1 = "q\<lparr>usage_count := usage_count q + 1\<rparr>"
  define resp where "resp = \<lparr>response_question_id = qid, student_id = sid,
               response_text = text, is_correct = Some (evaluate_answer q text),
               score = Some (if evaluate_answer q text then 100 else 0),
               response_time = rtime, confidence_level = conf, submitted_at = now\<rparr>"
  let ?db1 = "db\<lparr>pending := pending db @ [resp]\<rparr>"
  let ?q2 = "update_correct_rate ?q1 ?db1"
  have id: "question_id ?q2 = qid" using find_Some_id [OF f] by simp
  have s: "submit_answer db qid sid text rtime conf now =
      Inr (commit ?db1 ?q2, \<lparr>reply_is_correct = evaluate_answer q text,
          reply_score = (if evaluate_answer q text then 100 else 0),
          reply_explanation = explanation q\<rparr>)"
    using f by (simp add: submit_answer_def Let_def resp_def)
  have "find (\<lambda>x. question_id x = qid) (question_rows (commit ?db1 ?q2)) = Some ?q2"
    using find_map_replace [OF f id] by (simp add: commit_def)
  moreover have "correct_rate ?q2 = correct_rate (update_correct_rate q ?db1)"
    by (simp add: update_correct_rate_def Let_def)
  moreover have "response_question_id resp = qid" "response_text resp = text"
    "is_correct resp = Some (evaluate_answer q text)"
    by (simp_all add: resp_def)
  ultimately show "\<exists>db' reply resp q'.
          submit_answer db qid sid text rtime conf now = Inr (db', reply)
          \<and> response_question_id resp = qid \<and> response_text resp = text
          \<and> is_correct resp = Some (evaluate_answer q text)
          \<and> find (\<lambda>x. question_id x = qid) (question_rows db') = Some q'
          \<and> correct_rate q' = correct_rate (update_correct_rate q (db\<lparr>pending := pending db @ [resp]\<rparr>))"
    using s by blast
qed

theorem correct_rate_truncated_witness:
  "correct_rate (update_correct_rate (mk_question MULTIPLE_CHOICE ''paris'' KwNull)
       three_responses_db) = Some 66
   \<and> \<lfloor>100 * 2 / 3 :: real\<rfloor> = 66
   \<and> correct_rate (update_correct_rate (mk_question MULTIPLE_CHOICE ''paris'' KwNull)
       fifty_responses_db) = Some 57
   \<and> \<lfloor>100 * 29 / 50 :: real\<rfloor> = 58
   \<and> correct_rate (update_correct_rate (mk_question MULTIPLE_CHOICE ''paris'' KwNull)
       (one_question_db (mk_question MULTIPLE_CHOICE ''paris'' KwNull))) = None
   \<and> (\<exists>db' reply resp q'.
         submit_answer three_responses_db 1 ''s2'' ''Paris'' None None 6 = Inr (db', reply)
         \<and> response_question_id resp = 1 \<and> is_correct resp = Some True
         \<and> find (\<lambda>x. question_id x = 1) (question_rows db') = Some q'
         \<and> correct_rate q' = correct_rate (update_correct_rate
               (mk_question MULTIPLE_CHOICE ''paris'' KwNull)
               (three_responses_db\<lparr>pending := pending three_responses_db @ [resp]\<rparr>)))"
proof -
  let ?q = "mk_question MULTIPLE_CHOICE ''paris'' KwNull"
  let ?ks = "known_responses ?q three_responses_db"
  have n: "?ks \<noteq> []" by code_simp
  have l: "length ?ks = 3" by code_simp
  have c: "correct_count ?ks = 2" by code_simp
  have v: "\<lfloor>100 * 2 / 3 :: real\<rfloor> = 66" by simp
  have a: "correct_rate (update_correct_rate ?q three_responses_db) = Some 66"
    using correct_rate_truncated [of ?q three_responses_db, THEN conjunct2, THEN conjunct1]
      n l c v by auto
  have n50: "known_responses ?q fifty_responses_db \<noteq> []" by code_simp
  have v50: "py_int (fmul (int_truediv (int (correct_count (known_responses ?q fifty_responses_db)))
                                     (int (length (known_responses ?q fifty_responses_db))))
                        (float_of_int 100)) = 57"
    by code_simp
  have b: "correct_rate (update_correct_rate ?q fifty_responses_db) = Some 57"
    using correct_rate_truncated [of ?q fifty_responses_db, THEN conjunct1] n50 v50 by simp
  have k0: "known_responses ?q (one_question_db ?q) = []" by code_simp
  have z: "correct_rate (update_correct_rate ?q (one_question_db ?q)) = None"
    using correct_rate_truncated [of ?q "one_question_db ?q", THEN conjunct1] k0
    by (simp add: mk_question_def)
  have f: "find (\<lambda>x. question_id x = 1) (question_rows three_responses_db) = Some ?q"
    by (simp add: three_responses_db_def mk_question_def)
  have e: "evaluate_answer ?q ''Paris''" by code_simp
  have s: "\<exists>db' reply resp q'.
         submit_answer three_responses_db 1 ''s2'' ''Paris'' None None 6 = Inr (db', reply)
         \<and> response_question_id resp = 1 \<and> is_correct resp = Some True
         \<and> find (\<lambda>x. question_id x = 1) (question_rows db') = Some q'
         \<and> correct_rate q' = correct_rate (update_correct_rate ?q
               (three_responses_db\<lparr>pending := pending three_responses_db @ [resp]\<rparr>))"
    using correct_rate_truncated [of ?q three_responses_db 1 "''s2''" "''Paris''" None None 6,
        THEN conjunct2, THEN conjunct2] f e
    by auto
  have w: "\<lfloor>100 * 29 / 50 :: real\<rfloor> = 58" by simp
  from a v b w z s show ?thesis by blast
qed

section \<open>The difficulty distribution\<close>

lemma to_double_two: "to_double 2 = 2"
  using to_double_int [of 2] by simp

lemma to_double_one: "to_double 1 = 1"
  using to_double_int [of 1] by simp

lemma to_double_below_two:
  assumes "0 \<le> x" "to_double x < 2"
  shows "x < 2" and "\<bar>to_double x - x\<bar> \<le> 2 / 2 ^ 53"
proof -
  show x: "x < 2"
  proof (rule ccontr)
    assume "\<not> x < 2"
    then have "to_double 2 \<le> to_double x" by (intro to_double_mono) simp_all
    with assms(2) to_double_two show False by linarith
  qed
  have "x / 2 ^ 53 \<le> 2 / 2 ^ 53" using x by (simp add: divide_right_mono)
  then show "\<bar>to_double x - x\<bar> \<le> 2 / 2 ^ 53" using to_double_rel [of x] assms(1) by simp
qed

lemma py_sum_three: "py_sum [a, b, c] = to_double (to_double (to_double a + b) + c)"
  by (simp add: py_sum_def fadd_def)

lemma sums_to_one_bound:
  assumes "0 \<le> ratio EASY" "0 \<le> ratio MEDIUM" "0 \<le> ratio HARD" "sums_to_one ratio"
  shows "ratio EASY + ratio MEDIUM \<le> 1 + 1 / 2 ^ 50"
proof (cases "ratio EASY + ratio MEDIUM + ratio HARD = 1")
  case True
  then show ?thesis using assms(3) by simp
next
  case False
  define u where "u = 2 / (2::real) ^ 53"
  have u: "0 \<le> u" "u \<le> 1 / 4" "3 * u \<le> 1 / 2 ^ 50" by (simp_all add: u_def)
  define a where "a = to_double (ratio EASY)"
  define b where "b = to_double (a + ratio MEDIUM)"
  have a0: "0 \<le> a" using assms(1) by (simp add: a_def to_double_nonneg)
  have b0: "0 \<le> b" using assms(2) a0 by (simp add: b_def to_double_nonneg)
  have "to_double (b + ratio HARD) = 1"
    using assms(4) False by (simp add: sums_to_one_def py_sum_three a_def b_def)
  then have c: "to_double (b + ratio HARD) < 2" "to_double (b + ratio HARD) = 1" by simp_all
  have z0: "0 \<le> b + ratio HARD" using b0 assms(3) by simp
  have "\<bar>to_double (b + ratio HARD) - (b + ratio HARD)\<bar> \<le> u"
    unfolding u_def by (rule to_double_below_two(2) [OF z0 c(1)])
  then have b1: "b \<le> 1 + u" using c(2) assms(3) by linarith
  have w0: "0 \<le> a + ratio MEDIUM" using a0 assms(2) by simp
  have b2: "to_double (a + ratio MEDIUM) < 2" using b1 u by (simp add: b_def [symmetric])
  have "\<bar>to_double (a + ratio MEDIUM) - (a + ratio MEDIUM)\<bar> \<le> u"
    unfolding u_def by (rule to_double_below_two(2) [OF w0 b2])
  then have w1: "a + ratio MEDIUM \<le> 1 + 2 * u" using b1 by (simp add: b_def [symmetric])
  have a2: "to_double (ratio EASY) < 2" using w1 assms(2) u by (simp add: a_def [symmetric])
  have "\<bar>to_double (ratio EASY) - ratio EASY\<bar> \<le> u"
    unfolding u_def by (rule to_double_below_two(2) [OF assms(1) a2])
  then have "ratio EASY \<le> a + u" by (simp add: a_def [symmetric])
  then have "ratio EASY + ratio MEDIUM \<le> 1 + 3 * u" using w1 u by linarith
  then show ?thesis using u(3) by linarith
qed

lemma float_product_bounds:
  assumes "0 \<le> t" "t < 2 ^ 48" "0 \<le> r" "r \<le> 2"
  shows "py_int (fmul (float_of_int t) r) = \<lfloor>fmul (float_of_int t) r\<rfloor>"
    and "0 \<le> py_int (fmul (float_of_int t) r)"
    and "\<lfloor>real_of_int t * r\<rfloor> \<le> py_int (fmul (float_of_int t) r)"
    and "py_int (fmul (float_of_int t) r) \<le> \<lfloor>real_of_int t * r\<rfloor> + 1"
proof -
  let ?x = "real_of_int t * r"
  let ?k = "\<lfloor>?x\<rfloor>"
  have t: "\<bar>t\<bar> < 2 ^ 53" using assms(1,2) by simp
  have f: "fmul (float_of_int t) r = to_double ?x"
    by (simp add: fmul_def float_of_int_small [OF t])
  have x0: "0 \<le> ?x" using assms(1,3) by simp
  have d0: "0 \<le> to_double ?x" using x0 by (rule to_double_nonneg)
  have p: "py_int (to_double ?x) = \<lfloor>to_double ?x\<rfloor>" using d0 by (rule py_int_nonneg)
  have "real_of_int t < 2 ^ 48" using assms(2) by (metis of_int_less_iff of_int_numeral of_int_power)
  then have "?x \<le> 2 ^ 48 * 2"
    using assms(1,3,4) by (intro mult_mono) simp_all
  then have xb: "?x < 2 ^ 50" by simp
  have k0: "0 \<le> ?k" using x0 by simp
  have kx: "of_int ?k \<le> ?x" "?x < of_int ?k + 1" by simp_all
  have "real_of_int ?k < 2 ^ 50" using kx(1) xb by linarith
  then have kb: "?k < 2 ^ 50" by (metis of_int_less_iff of_int_numeral of_int_power)
  have "to_double (of_int ?k) \<le> to_double ?x" using k0 kx(1) by (intro to_double_mono) simp_all
  moreover have "to_double (of_int ?k) = of_int ?k" using k0 kb by (intro to_double_int) simp
  ultimately have "of_int ?k \<le> to_double ?x" by simp
  then have lo: "?k \<le> \<lfloor>to_double ?x\<rfloor>" by (simp only: le_floor_iff)
  have "to_double ?x \<le> to_double (of_int (?k + 1))"
    using x0 kx(2) by (intro to_double_mono) simp_all
  moreover have "to_double (of_int (?k + 1)) = of_int (?k + 1)"
    using k0 kb by (intro to_double_int) simp
  ultimately have "to_double ?x \<le> of_int (?k + 1)" by simp
  then have hi: "\<lfloor>to_double ?x\<rfloor> \<le> ?k + 1" by (metis floor_mono floor_of_int)
  show "py_int (fmul (float_of_int t) r) = \<lfloor>fmul (float_of_int t) r\<rfloor>"
    unfolding f by (rule p)
  show "0 \<le> py_int (fmul (float_of_int t) r)" unfolding f p using d0 by simp
  show "\<lfloor>real_of_int t * r\<rfloor> \<le> py_int (fmul (float_of_int t) r)"
    unfolding f p by (rule lo)
  show "py_int (fmul (float_of_int t) r) \<le> \<lfloor>real_of_int t * r\<rfloor> + 1"
    unfolding f p by (rule hi)
qed

lemma counts_le_total:
  assumes "0 \<le> t" "t < 2 ^ 48" "0 \<le> e" "0 \<le> m" "e + m \<le> 1 + 1 / 2 ^ 50"
  shows "\<lfloor>fmul (float_of_int t) e\<rfloor> + \<lfloor>fmul (float_of_int t) m\<rfloor> \<le> t"
proof -
  define T where "T = real_of_int t"
  have tb: "\<bar>t\<bar> < 2 ^ 53" using assms(1,2) by simp
  have T0: "0 \<le> T" using assms(1) by (simp add: T_def)
  have "real_of_int t < 2 ^ 48" using assms(2) by (metis of_int_less_iff of_int_numeral of_int_power)
  then have Tb: "T \<le> 2 ^ 48" by (simp add: T_def)
  define x1 where "x1 = T * e"
  define x2 where "x2 = T * m"
  have x0: "0 \<le> x1" "0 \<le> x2" using T0 assms(3,4) by (simp_all add: x1_def x2_def)
  have "x1 + x2 = T * (e + m)" by (simp add: x1_def x2_def distrib_left)
  also have "\<dots> \<le> T * (1 + 1 / 2 ^ 50)" using assms(5) T0 by (rule mult_left_mono)
  also have "\<dots> = T + T / 2 ^ 50" by (simp add: distrib_left)
  also have "T / 2 ^ 50 \<le> 2 ^ 48 / 2 ^ 50" using Tb by (simp only: divide_right_mono zero_le_power zero_le_numeral)
  finally have s: "x1 + x2 \<le> T + 1 / 4" by simp
  have "(x1 + x2) / 2 ^ 53 \<le> (2 ^ 48 + 1 / 4) / 2 ^ 53"
    using s Tb by (intro divide_right_mono) simp_all
  then have s2: "x1 / 2 ^ 53 + x2 / 2 ^ 53 \<le> 1 / 4" by (simp add: add_divide_distrib)
  have f1: "to_double x1 \<le> x1 + x1 / 2 ^ 53" using x0(1) by (rule to_double_near(1))
  have f2: "to_double x2 \<le> x2 + x2 / 2 ^ 53" using x0(2) by (rule to_double_near(1))
  have "of_int \<lfloor>to_double x1\<rfloor> \<le> to_double x1" "of_int \<lfloor>to_double x2\<rfloor> \<le> to_double x2"
    by simp_all
  then have "real_of_int \<lfloor>to_double x1\<rfloor> + real_of_int \<lfloor>to_double x2\<rfloor> < T + 1"
    using f1 f2 s s2 by linarith
  then have "real_of_int (\<lfloor>to_double x1\<rfloor> + \<lfloor>to_double x2\<rfloor>) < T + 1"
    by simp
  then have "real_of_int (\<lfloor>to_double x1\<rfloor> + \<lfloor>to_double x2\<rfloor>) < real_of_int (t + 1)"
    by (simp add: T_def)
  then have "\<lfloor>to_double x1\<rfloor> + \<lfloor>to_double x2\<rfloor> < t + 1" by (simp only: of_int_less_iff)
  then show ?thesis
    by (simp add: fmul_def float_of_int_small [OF tb] x1_def x2_def T_def)
qed

lemma distribution_counts:
  "calculate_difficulty_distribution total_qs ratio EASY
     = py_int (fmul (float_of_int total_qs) (ratio_or_default ratio EASY))"
  "calculate_difficulty_distribution total_qs ratio MEDIUM
     = py_int (fmul (float_of_int total_qs) (ratio_or_default ratio MEDIUM))"
  "calculate_difficulty_distribution total_qs ratio HARD
     = total_qs - calculate_difficulty_distribution total_qs ratio EASY
                - calculate_difficulty_distribution total_qs ratio MEDIUM"
  by (simp_all add: calculate_difficulty_distribution_def Let_def)

lemma distribution_nonneg:
  assumes "0 \<le> total_qs" "total_qs < 2 ^ 48"
    and "0 \<le> ratio_or_default ratio EASY" "0 \<le> ratio_or_default ratio MEDIUM"
    and "0 \<le> ratio_or_default ratio HARD" "sums_to_one (ratio_or_default ratio)"
  shows "0 \<le> calculate_difficulty_distribution total_qs ratio t"
proof -
  let ?r = "ratio_or_default ratio"
  note b = sums_to_one_bound [OF assms(3-6)]
  have e2: "?r EASY \<le> 2" and m2: "?r MEDIUM \<le> 2" using b assms(3,4) by simp_all
  note pe = float_product_bounds [OF assms(1,2,3) e2]
  note pm = float_product_bounds [OF assms(1,2,4) m2]
  have "0 \<le> calculate_difficulty_distribution total_qs ratio HARD"
    using counts_le_total [OF assms(1,2,3,4) b] pe(1) pm(1) by (simp add: distribution_counts)
  then show ?thesis using pe(2) pm(2) by (cases t) (simp_all add: distribution_counts(1,2))
qed

text \<open>
  C3, as stated, fails. For the total 10 and the ratios -0.25, 0.5, 0.75, which sum to
  1.0, the easy count is \<open>int(-2.5) = -2\<close>, which is negative and is not
  \<open>floor(-2.5) = -3\<close>. For the total 10 and the ratios 0.7, 1 - 0.7, 0 the easy count
  is 7, because the product of 10 and the float 0.7 is rounded to 7.0, while the integer
  part of the exact product is 6. For the total \<open>2 ^ 53 + 3\<close>, which the conversion to
  a float rounds to \<open>2 ^ 53 + 4\<close>, and the ratios 1, 0, 0 the hard count is -1.
\<close>

theorem distribution_counterexample:
  "sums_to_one skewed_ratio
   \<and> calculate_difficulty_distribution 10 (Some skewed_ratio) EASY = - 2
   \<and> \<lfloor>fmul (float_of_int 10) (skewed_ratio EASY)\<rfloor> = - 3
   \<and> sums_to_one seven_tenths_ratio
   \<and> 0 \<le> seven_tenths_ratio EASY \<and> 0 \<le> seven_tenths_ratio MEDIUM
   \<and> 0 \<le> seven_tenths_ratio HARD
   \<and> calculate_difficulty_distribution 10 (Some seven_tenths_ratio) EASY = 7
   \<and> \<lfloor>real_of_int 10 * seven_tenths_ratio EASY\<rfloor> = 6
   \<and> sums_to_one all_easy_ratio
   \<and> calculate_difficulty_distribution (2 ^ 53 + 3) (Some all_easy_ratio) EASY = 2 ^ 53 + 4
   \<and> calculate_difficulty_distribution (2 ^ 53 + 3) (Some all_easy_ratio) HARD = - 1"
proof (intro conjI)
  show "sums_to_one skewed_ratio" by code_simp
  show "calculate_difficulty_distribution 10 (Some skewed_ratio) EASY = - 2" by code_simp
  show "\<lfloor>fmul (float_of_int 10) (skewed_ratio EASY)\<rfloor> = - 3" by code_simp
  show "sums_to_one seven_tenths_ratio" by code_simp
  show "0 \<le> seven_tenths_ratio EASY" by code_simp
  show "0 \<le> seven_tenths_ratio MEDIUM" by code_simp
  show "0 \<le> seven_tenths_ratio HARD" by code_simp
  show "calculate_difficulty_distribution 10 (Some seven_tenths_ratio) EASY = 7" by code_simp
  show "\<lfloor>real_of_int 10 * seven_tenths_ratio EASY\<rfloor> = 6" by code_simp
  show "sums_to_one all_easy_ratio" by code_simp
  show "calculate_difficulty_distribution (2 ^ 53 + 3) (Some all_easy_ratio) EASY = 2 ^ 53 + 4"
    by code_simp
  show "calculate_difficulty_distribution (2 ^ 53 + 3) (Some all_easy_ratio) HARD = - 1"
    by code_simp
qed

text \<open>
  C3, amended. For every total from 0 to below \<open>2 ^ 48\<close> and every ratio mapping over
  the three tiers whose values are non-negative and sum to 1.0, the easy count is the
  integer part of the product \<open>total * easy_ratio\<close> as a double, which is
  \<open>floor(total * easy_ratio)\<close> or one more, the medium count likewise, the hard count
  is the whole remainder, the three counts sum to the total, and each is non-negative.
\<close>

theorem distribution_sums_to_total:
  assumes "0 \<le> total_qs" and "total_qs < 2 ^ 48"
    and "0 \<le> ratio EASY" and "0 \<le> ratio MEDIUM" and "0 \<le> ratio HARD"
    and "sums_to_one ratio"
  shows "calculate_difficulty_distribution total_qs (Some ratio) EASY
           = \<lfloor>fmul (float_of_int total_qs) (ratio EASY)\<rfloor>
    \<and> \<lfloor>real_of_int total_qs * ratio EASY\<rfloor>
         \<le> calculate_difficulty_distribution total_qs (Some ratio) EASY
    \<and> calculate_difficulty_distribution total_qs (Some ratio) EASY
         \<le> \<lfloor>real_of_int total_qs * ratio EASY\<rfloor> + 1
    \<and> calculate_difficulty_distribution total_qs (Some ratio) MEDIUM
           = \<lfloor>fmul (float_of_int total_qs) (ratio MEDIUM)\<rfloor>
    \<and> \<lfloor>real_of_int total_qs * ratio MEDIUM\<rfloor>
         \<le> calculate_difficulty_distribution total_qs (Some ratio) MEDIUM
    \<and> calculate_difficulty_distribution total_qs (Some ratio) MEDIUM
         \<le> \<lfloor>real_of_int total_qs * ratio MEDIUM\<rfloor> + 1
    \<and> calculate_difficulty_distribution total_qs (Some ratio) HARD
        = total_qs - calculate_difficulty_distribution total_qs (Some ratio) EASY
                   - calculate_difficulty_distribution total_qs (Some ratio) MEDIUM
    \<and> calculate_difficulty_distribution total_qs (Some ratio) EASY
        + calculate_difficulty_distribution total_qs (Some ratio) MEDIUM
        + calculate_difficulty_distribution total_qs (Some ratio) HARD = total_qs
    \<and> 0 \<le> calculate_difficulty_distribution total_qs (Some ratio) EASY
    \<and> 0 \<le> calculate_difficulty_distribution total_qs (Some ratio) MEDIUM
    \<and> 0 \<le> calculate_difficulty_distribution total_qs (Some ratio) HARD"
proof -
  have r: "ratio_or_default (Some ratio) = ratio" by (simp add: ratio_or_default_def)
  note b = sums_to_one_bound [OF assms(3-6)]
  have e2: "ratio EASY \<le> 2" and m2: "ratio MEDIUM \<le> 2" using b assms(3,4) by simp_all
  note pe = float_product_bounds [OF assms(1,2,3) e2]
  note pm = float_product_bounds [OF assms(1,2,4) m2]
  have n: "0 \<le> calculate_difficulty_distribution total_qs (Some ratio) t" for t
    using assms by (intro distribution_nonneg) (simp_all add: r)
  show ?thesis
    using pe pm n [of EASY] n [of MEDIUM] n [of HARD]
    by (simp add: distribution_counts r)
qed

theorem distribution_sums_to_total_witness:
  "calculate_difficulty_distribution 10 (Some default_ratio) EASY = 4
   \<and> calculate_difficulty_distribution 10 (Some default_ratio) MEDIUM = 4
   \<and> calculate_difficulty_distribution 10 (Some default_ratio) HARD = 2
   \<and> calculate_difficulty_distribution 10 (Some seven_tenths_ratio) EASY = 7
   \<and> \<lfloor>real_of_int 10 * seven_tenths_ratio EASY\<rfloor> + 1 = 7
   \<and> calculate_difficulty_distribution 10 (Some seven_tenths_ratio) MEDIUM = 3
   \<and> calculate_difficulty_distribution 10 (Some seven_tenths_ratio) HARD = 0"
proof -
  have t: "(0::int) \<le> 10" "(10::int) < 2 ^ 48" by simp_all
  have d: "0 \<le> default_ratio EASY" "0 \<le> default_ratio MEDIUM" "0 \<le> default_ratio HARD"
    "sums_to_one default_ratio"
    by code_simp+
  have vd: "\<lfloor>fmul (float_of_int 10) (default_ratio EASY)\<rfloor> = 4"
    "\<lfloor>fmul (float_of_int 10) (default_ratio MEDIUM)\<rfloor> = 4"
    by code_simp+
  have s: "0 \<le> seven_tenths_ratio EASY" "0 \<le> seven_tenths_ratio MEDIUM"
    "0 \<le> seven_tenths_ratio HARD" "sums_to_one seven_tenths_ratio"
    by code_simp+
  have vs: "\<lfloor>fmul (float_of_int 10) (seven_tenths_ratio EASY)\<rfloor> = 7"
    "\<lfloor>fmul (float_of_int 10) (seven_tenths_ratio MEDIUM)\<rfloor> = 3"
    "\<lfloor>real_of_int 10 * seven_tenths_ratio EASY\<rfloor> = 6"
    by code_simp+
  show ?thesis
    using distribution_sums_to_total [OF t d] distribution_sums_to_total [OF t s] vd vs
    by simp
qed

section \<open>The balance score\<close>

lemma to_double_le_one: "x \<le> 1 \<Longrightarrow> to_double x \<le> 1"
proof (cases "0 < x")
  case True
  assume "x \<le> 1"
  from to_double_mono_pos [OF True this] show ?thesis by (simp add: to_double_one)
next
  case False
  then have "to_double x \<le> 0" by (intro to_double_nonpos) simp
  then show ?thesis by simp
qed

lemma py_sum_three_nonneg: "0 \<le> a \<Longrightarrow> 0 \<le> b \<Longrightarrow> 0 \<le> c \<Longrightarrow> 0 \<le> py_sum [a, b, c]"
  by (simp add: py_sum_three to_double_nonneg)

lemma balance_score_formula:
  "calculate_balance_score ratios = max 0 (fsub 1 (fmul (mean_deviation (observed ratios)) 2))"
  by (simp add: calculate_balance_score_def mean_deviation_def observed_def ideal_ratios_def
      float_of_int_small Let_def)

lemma mean_deviation_nonneg: "0 \<le> mean_deviation obs"
  unfolding mean_deviation_def fdiv_def
  by (intro to_double_nonneg divide_nonneg_nonneg py_sum_three_nonneg) simp_all

lemma mean_deviation_no_hard:
  assumes "obs HARD = 0"
  shows "to_double (to_double \<bar>fsub 0 (to_double (1 / 5))\<bar> / 3) \<le> mean_deviation obs"
proof -
  let ?c = "\<bar>fsub 0 (to_double (1 / 5))\<bar>"
  let ?a = "to_double (to_double \<bar>fsub (obs EASY) (to_double (2 / 5))\<bar>
              + \<bar>fsub (obs MEDIUM) (to_double (2 / 5))\<bar>)"
  have a: "0 \<le> ?a" by (intro to_double_nonneg add_nonneg_nonneg) simp_all
  have s: "py_sum [\<bar>fsub (obs EASY) (to_double (2 / 5))\<bar>, \<bar>fsub (obs MEDIUM) (to_double (2 / 5))\<bar>,
                   \<bar>fsub (obs HARD) (to_double (1 / 5))\<bar>] = to_double (?a + ?c)"
    using assms by (simp add: py_sum_three)
  have "to_double ?c \<le> to_double (?a + ?c)" using a by (intro to_double_mono) simp_all
  then have "to_double ?c / 3 \<le> to_double (?a + ?c) / 3" by simp
  moreover have "0 \<le> to_double ?c / 3" by (intro divide_nonneg_nonneg to_double_nonneg) simp_all
  ultimately have "to_double (to_double ?c / 3) \<le> to_double (to_double (?a + ?c) / 3)"
    by (intro to_double_mono)
  then show ?thesis by (simp add: mean_deviation_def fdiv_def s)
qed

lemma balance_score_no_hard:
  assumes "observed ratios HARD = 0"
  shows "calculate_balance_score ratios < 1"
proof -
  let ?c = "to_double (to_double \<bar>fsub 0 (to_double (1 / 5))\<bar> / 3)"
  let ?m = "mean_deviation (observed ratios)"
  have c0: "0 \<le> ?c * 2" by code_simp
  have c1: "0 < 1 - to_double (?c * 2)" by code_simp
  have c2: "to_double (1 - to_double (?c * 2)) < 1" by code_simp
  have "?c * 2 \<le> ?m * 2" using mean_deviation_no_hard [of "observed ratios", OF assms] by simp
  with c0 have y: "to_double (?c * 2) \<le> to_double (?m * 2)" by (intro to_double_mono)
  have "to_double (1 - to_double (?m * 2)) < 1"
  proof (cases "0 < 1 - to_double (?m * 2)")
    case True
    have "1 - to_double (?m * 2) \<le> 1 - to_double (?c * 2)" using y by simp
    from to_double_mono_pos [OF True this] c2 show ?thesis by simp
  next
    case False
    then have "to_double (1 - to_double (?m * 2)) \<le> 0" by (intro to_double_nonpos) simp
    then show ?thesis by simp
  qed
  then show ?thesis by (simp add: balance_score_formula fsub_def fmul_def)
qed

lemma fold_count_difficulty:
  "fold count_difficulty qs counts t = counts t + tier_count t qs"
proof (induction qs arbitrary: counts)
  case Nil
  then show ?case by (simp add: tier_count_def)
next
  case (Cons q qs)
  show ?case by (cases q) (auto simp: Cons.IH tier_count_def)
qed

lemma validate_report:
  "br_total_questions (validate_difficulty_balance qs) = length qs"
  "br_difficulty_counts (validate_difficulty_balance qs) t = tier_count t qs"
  "br_difficulty_ratios (validate_difficulty_balance qs)
     = (\<lambda>t. Some (if qs = [] then 0 else int_truediv (int (tier_count t qs)) (int (length qs))))"
  "br_balance_score (validate_difficulty_balance qs)
     = calculate_balance_score (br_difficulty_ratios (validate_difficulty_balance qs))"
  "br_is_balanced (validate_difficulty_balance qs)
     = (br_balance_score (validate_difficulty_balance qs) \<ge> to_double (7 / 10))"
  by (auto simp: validate_difficulty_balance_def Let_def fold_count_difficulty)

lemma validate_no_hard:
  "tier_count HARD qs = 0 \<Longrightarrow> observed (br_difficulty_ratios (validate_difficulty_balance qs)) HARD = 0"
  by (simp add: validate_report(3) observed_def int_truediv_def to_double_zero)

lemma round_within:
  assumes "\<bar>x\<bar> \<le> 4"
  shows "x - 1 / 2 ^ 51 \<le> to_double x" and "to_double x \<le> x + 1 / 2 ^ 51"
proof -
  have "\<bar>x\<bar> / 2 ^ 53 \<le> 4 / 2 ^ 53" using assms by (simp add: divide_right_mono)
  then have "\<bar>to_double x - x\<bar> \<le> 1 / 2 ^ 51" using to_double_rel [of x] by simp
  then show "x - 1 / 2 ^ 51 \<le> to_double x" and "to_double x \<le> x + 1 / 2 ^ 51"
    by linarith+
qed

lemma round_abs_within:
  assumes "\<bar>x\<bar> \<le> 4"
  shows "\<bar>x\<bar> - 1 / 2 ^ 51 \<le> \<bar>to_double x\<bar>" and "\<bar>to_double x\<bar> \<le> \<bar>x\<bar> + 1 / 2 ^ 51"
  using round_within [OF assms] by linarith+

lemma round_keeps:
  assumes "0 \<le> x"
  shows "x - x / 1024 \<le> to_double x"
proof -
  have "x / 2 ^ 53 \<le> x / 1024" using assms by (simp add: frac_le)
  then show ?thesis using to_double_near(2) [OF assms] by linarith
qed

lemma round_abs_keeps: "\<bar>x\<bar> - \<bar>x\<bar> / 1024 \<le> \<bar>to_double x\<bar>"
proof -
  have "\<bar>x\<bar> / 2 ^ 53 \<le> \<bar>x\<bar> / 1024" by (simp add: frac_le)
  moreover have "\<bar>x\<bar> - \<bar>to_double x\<bar> \<le> \<bar>to_double x - x\<bar>" by linarith
  ultimately show ?thesis using to_double_rel [of x] by linarith
qed

lemma literal_error:
  "\<bar>to_double (2 / 5) - 2 / 5\<bar> \<le> 1 / 2 ^ 54" "\<bar>to_double (1 / 5) - 1 / 5\<bar> \<le> 1 / 2 ^ 54"
  using to_double_rel [of "2 / 5"] to_double_rel [of "1 / 5"] by simp_all

lemma deviation_shift: "\<bar>c - a\<bar> \<le> e \<Longrightarrow> \<bar>x - a\<bar> - e \<le> \<bar>x - c\<bar> \<and> \<bar>x - c\<bar> \<le> \<bar>x - a\<bar> + e"
  for a c e x :: real
  by linarith

lemma max_zero_close: "z \<le> w + e \<Longrightarrow> w \<le> z + e \<Longrightarrow> \<bar>max 0 z - max 0 w\<bar> \<le> e"
  for z w e :: real
  by linarith

lemma balance_score_chain:
  "calculate_balance_score ratios =
     max 0 (to_double (1 - to_double (to_double (to_double (to_double (to_double
        \<bar>to_double (observed ratios EASY - to_double (2 / 5))\<bar>
        + \<bar>to_double (observed ratios MEDIUM - to_double (2 / 5))\<bar>)
        + \<bar>to_double (observed ratios HARD - to_double (1 / 5))\<bar>) / 3) * 2)))"
  by (simp add: balance_score_formula mean_deviation_def py_sum_three fsub_def fmul_def fdiv_def)

lemma balance_score_close:
  "\<bar>calculate_balance_score ratios - max 0 (1 - 2 * exact_mean_deviation (observed ratios))\<bar>
     \<le> 1 / 2 ^ 47"
proof -
  define U where "U = 1 / (2::real) ^ 51"
  have U: "0 < U" "U \<le> 1 / 1000" by (simp_all add: U_def)
  define ce where "ce = to_double (2 / 5)"
  define ch where "ch = to_double (1 / 5)"
  define oe where "oe = observed ratios EASY"
  define om where "om = observed ratios MEDIUM"
  define oh where "oh = observed ratios HARD"
  define Ee where "Ee = \<bar>oe - 2 / 5\<bar>"
  define Em where "Em = \<bar>om - 2 / 5\<bar>"
  define Eh where "Eh = \<bar>oh - 1 / 5\<bar>"
  define Ae where "Ae = \<bar>oe - ce\<bar>"
  define Am where "Am = \<bar>om - ce\<bar>"
  define Ah where "Ah = \<bar>oh - ch\<bar>"
  define D where "D = Ee + Em + Eh"
  define de where "de = \<bar>to_double (oe - ce)\<bar>"
  define dm where "dm = \<bar>to_double (om - ce)\<bar>"
  define dh where "dh = \<bar>to_double (oh - ch)\<bar>"
  define s1 where "s1 = to_double de"
  define s2 where "s2 = to_double (s1 + dm)"
  define s3 where "s3 = to_double (s2 + dh)"
  define avg where "avg = to_double (s3 / 3)"
  define y where "y = to_double (avg * 2)"
  define z where "z = to_double (1 - y)"
  have score: "calculate_balance_score ratios = max 0 z"
    unfolding balance_score_chain z_def y_def avg_def s3_def s2_def s1_def de_def dm_def dh_def
      ce_def ch_def oe_def om_def oh_def ..
  have exact: "exact_mean_deviation (observed ratios) = D / 3"
    by (simp add: exact_mean_deviation_def D_def Ee_def Em_def Eh_def oe_def om_def oh_def)
  have E0: "0 \<le> Ee" "0 \<le> Em" "0 \<le> Eh" by (simp_all add: Ee_def Em_def Eh_def)
  have A0: "0 \<le> Ae" "0 \<le> Am" "0 \<le> Ah" by (simp_all add: Ae_def Am_def Ah_def)
  have d0: "0 \<le> de" "0 \<le> dm" "0 \<le> dh" by (simp_all add: de_def dm_def dh_def)
  have s10: "0 \<le> s1" unfolding s1_def using d0(1) by (rule to_double_nonneg)
  have s20: "0 \<le> s2" unfolding s2_def using s10 d0(2) by (intro to_double_nonneg) simp
  have s30: "0 \<le> s3" unfolding s3_def using s20 d0(3) by (intro to_double_nonneg) simp
  have avg0: "0 \<le> avg" unfolding avg_def using s30 by (intro to_double_nonneg) simp
  have le: "\<bar>ce - 2 / 5\<bar> \<le> U / 8" and lh: "\<bar>ch - 1 / 5\<bar> \<le> U / 8"
    using literal_error by (simp_all add: ce_def ch_def U_def)
  have ge: "Ee - U / 8 \<le> Ae" "Ae \<le> Ee + U / 8"
    using deviation_shift [OF le, of oe] by (simp_all add: Ae_def Ee_def)
  have gm: "Em - U / 8 \<le> Am" "Am \<le> Em + U / 8"
    using deviation_shift [OF le, of om] by (simp_all add: Am_def Em_def)
  have gh: "Eh - U / 8 \<le> Ah" "Ah \<le> Eh + U / 8"
    using deviation_shift [OF lh, of oh] by (simp_all add: Ah_def Eh_def)
  show ?thesis
  proof (cases "D < 3")
    case True
    have e: "\<bar>oe - ce\<bar> \<le> 4" "\<bar>om - ce\<bar> \<le> 4" "\<bar>oh - ch\<bar> \<le> 4"
      using True ge gm gh E0 U unfolding D_def Ae_def Am_def Ah_def by linarith+
    have re: "Ae - U \<le> de" "de \<le> Ae + U"
      using round_abs_within [OF e(1)] by (simp_all add: de_def Ae_def U_def)
    have rm: "Am - U \<le> dm" "dm \<le> Am + U"
      using round_abs_within [OF e(2)] by (simp_all add: dm_def Am_def U_def)
    have rh: "Ah - U \<le> dh" "dh \<le> Ah + U"
      using round_abs_within [OF e(3)] by (simp_all add: dh_def Ah_def U_def)
    have "\<bar>de\<bar> \<le> 4" using re ge E0 d0 True U unfolding D_def by linarith
    from round_within [OF this] have a1: "de - U \<le> s1" "s1 \<le> de + U"
      by (simp_all add: s1_def U_def)
    have "\<bar>s1 + dm\<bar> \<le> 4" using a1 re rm ge gm E0 d0 s10 True U unfolding D_def by linarith
    from round_within [OF this] have a2: "s1 + dm - U \<le> s2" "s2 \<le> s1 + dm + U"
      by (simp_all add: s2_def U_def)
    have t2: "Ee + Em - 5 * U \<le> s2" "s2 \<le> Ee + Em + 5 * U"
      using a1 a2 re rm ge gm U by linarith+
    have "\<bar>s2 + dh\<bar> \<le> 4" using t2 rh gh E0 d0 s20 True U unfolding D_def by linarith
    from round_within [OF this] have a3: "s2 + dh - U \<le> s3" "s3 \<le> s2 + dh + U"
      by (simp_all add: s3_def U_def)
    have t3: "D - 8 * U \<le> s3" "s3 \<le> D + 8 * U"
      using t2 a3 rh gh U unfolding D_def by linarith+
    have "\<bar>s3 / 3\<bar> \<le> 4" using t3 s30 True U by linarith
    from round_within [OF this] have a4: "s3 / 3 - U \<le> avg" "avg \<le> s3 / 3 + U"
      by (simp_all add: avg_def U_def)
    have t4: "D / 3 - 4 * U \<le> avg" "avg \<le> D / 3 + 4 * U" using a4 t3 U by linarith+
    have "\<bar>avg * 2\<bar> \<le> 4" using t4 avg0 True U by linarith
    from round_within [OF this] have a5: "avg * 2 - U \<le> y" "y \<le> avg * 2 + U"
      by (simp_all add: y_def U_def)
    have t5: "2 * (D / 3) - 9 * U \<le> y" "y \<le> 2 * (D / 3) + 9 * U" using a5 t4 by linarith+
    have D0: "0 \<le> D" using E0 unfolding D_def by linarith
    have "\<bar>1 - y\<bar> \<le> 4" using t5 D0 True U by linarith
    from round_within [OF this] have a6: "1 - y - U \<le> z" "z \<le> 1 - y + U"
      by (simp_all add: z_def U_def)
    have "z \<le> (1 - 2 * (D / 3)) + 10 * U" "(1 - 2 * (D / 3)) \<le> z + 10 * U"
      using a6 t5 by linarith+
    then have "\<bar>max 0 z - max 0 (1 - 2 * (D / 3))\<bar> \<le> 10 * U" by (rule max_zero_close)
    moreover have "10 * U \<le> 1 / 2 ^ 47" by (simp add: U_def)
    ultimately show ?thesis unfolding score exact by linarith
  next
    case False
    have k1: "Ae - Ae / 1024 \<le> de" "Am - Am / 1024 \<le> dm" "Ah - Ah / 1024 \<le> dh"
      unfolding de_def dm_def dh_def Ae_def Am_def Ah_def by (rule round_abs_keeps)+
    have k2: "29 / 10 \<le> de + dm + dh" using k1 ge gm gh False U unfolding D_def by linarith
    have k3: "de - de / 1024 \<le> s1" unfolding s1_def using d0(1) by (rule round_keeps)
    have "(s1 + dm) - (s1 + dm) / 1024 \<le> s2"
      unfolding s2_def using s10 d0(2) by (intro round_keeps) simp
    then have k4: "s1 + dm - s1 / 1024 - dm / 1024 \<le> s2" by (simp add: add_divide_distrib)
    have "(s2 + dh) - (s2 + dh) / 1024 \<le> s3"
      unfolding s3_def using s20 d0(3) by (intro round_keeps) simp
    then have k5: "s2 + dh - s2 / 1024 - dh / 1024 \<le> s3" by (simp add: add_divide_distrib)
    have k6: "28 / 10 \<le> s3" using k2 k3 k4 k5 d0 by linarith
    have k7: "s3 / 3 - s3 / 3 / 1024 \<le> avg"
      unfolding avg_def using s30 by (intro round_keeps) simp
    have k8: "avg * 2 - avg * 2 / 1024 \<le> y"
      unfolding y_def using avg0 by (intro round_keeps) simp
    have "1 \<le> y" using k6 k7 k8 by linarith
    then have "z \<le> 0" unfolding z_def by (intro to_double_nonpos) simp
    then have "max 0 z = 0" by simp
    moreover have "max 0 (1 - 2 * (D / 3)) = 0" using False by simp
    ultimately show ?thesis unfolding score exact by simp
  qed
qed

text \<open>
  C9. The balance score is \<open>max(0, 1 - 2 * m)\<close> for the mean \<open>m\<close> of the absolute
  deviations of the observed ratios from the floats 0.4, 0.4, 0.2, each operation in
  double precision; it differs by at most \<open>2 ^ -47\<close> from \<open>max(0, 1 - 2 * m)\<close> for
  the mean of the absolute deviations from 0.4, 0.4, 0.2 in exact arithmetic; it lies in
  \<open>[0, 1]\<close>; it is 1.0 for the ideal ratios; it is below 1.0 when the observed hard
  ratio is 0. The report on a list of questions gives their
  number, the number counted under each tier, the ratio of each tier, which is this
  number divided by the number of questions, or 0 for the empty list, and the balance
  score of these ratios, which is below 1.0 when no question is counted as hard; the
  list is reported balanced iff this score is at least 0.7.
\<close>

theorem balance_score_properties:
  "calculate_balance_score ratios = max 0 (fsub 1 (fmul (mean_deviation (observed ratios)) 2))
   \<and> \<bar>calculate_balance_score ratios
        - max 0 (1 - 2 * exact_mean_deviation (observed ratios))\<bar> \<le> 1 / 2 ^ 47
   \<and> 0 \<le> calculate_balance_score ratios \<and> calculate_balance_score ratios \<le> 1
   \<and> calculate_balance_score
        [EASY \<mapsto> to_double (2 / 5), MEDIUM \<mapsto> to_double (2 / 5), HARD \<mapsto> to_double (1 / 5)] = 1
   \<and> (observed ratios HARD = 0 \<longrightarrow> calculate_balance_score ratios < 1)
   \<and> br_total_questions (validate_difficulty_balance qs) = length qs
   \<and> br_difficulty_counts (validate_difficulty_balance qs) t = tier_count t qs
   \<and> br_difficulty_ratios (validate_difficulty_balance qs) t
       = Some (if qs = [] then 0 else int_truediv (int (tier_count t qs)) (int (length qs)))
   \<and> br_balance_score (validate_difficulty_balance qs)
       = calculate_balance_score
           (\<lambda>t. Some (if qs = [] then 0 else int_truediv (int (tier_count t qs)) (int (length qs))))
   \<and> (tier_count HARD qs = 0 \<longrightarrow> br_balance_score (validate_difficulty_balance qs) < 1)
   \<and> br_is_balanced (validate_difficulty_balance qs)
       = (br_balance_score (validate_difficulty_balance qs) \<ge> to_double (7 / 10))"
proof (intro conjI impI)
  show "calculate_balance_score ratios = max 0 (fsub 1 (fmul (mean_deviation (observed ratios)) 2))"
    by (rule balance_score_formula)
  show "\<bar>calculate_balance_score ratios
        - max 0 (1 - 2 * exact_mean_deviation (observed ratios))\<bar> \<le> 1 / 2 ^ 47"
    by (rule balance_score_close)
  show "0 \<le> calculate_balance_score ratios"
    by (simp add: balance_score_formula)
  have "0 \<le> mean_deviation (observed ratios) * 2"
    using mean_deviation_nonneg [of "observed ratios"] by simp
  then have "0 \<le> fmul (mean_deviation (observed ratios)) 2"
    unfolding fmul_def by (rule to_double_nonneg)
  then have "fsub 1 (fmul (mean_deviation (observed ratios)) 2) \<le> 1"
    unfolding fsub_def by (intro to_double_le_one) simp
  then show "calculate_balance_score ratios \<le> 1"
    by (simp add: balance_score_formula)
  show "calculate_balance_score
        [EASY \<mapsto> to_double (2 / 5), MEDIUM \<mapsto> to_double (2 / 5), HARD \<mapsto> to_double (1 / 5)] = 1"
    by code_simp
  show "calculate_balance_score ratios < 1" if "observed ratios HARD = 0"
    using that by (rule balance_score_no_hard)
  show "br_total_questions (validate_difficulty_balance qs) = length qs"
    by (rule validate_report(1))
  show "br_difficulty_counts (validate_difficulty_balance qs) t = tier_count t qs"
    by (rule validate_report(2))
  show "br_difficulty_ratios (validate_difficulty_balance qs) t
       = Some (if qs = [] then 0 else int_truediv (int (tier_count t qs)) (int (length qs)))"
    by (simp add: validate_report(3))
  show "br_balance_score (validate_difficulty_balance qs)
       = calculate_balance_score
           (\<lambda>t. Some (if qs = [] then 0 else int_truediv (int (tier_count t qs)) (int (length qs))))"
    by (simp only: validate_report(4) validate_report(3))
  show "br_balance_score (validate_difficulty_balance qs) < 1" if "tier_count HARD qs = 0"
    unfolding validate_report(4) using validate_no_hard [OF that] by (rule balance_score_no_hard)
  show "br_is_balanced (validate_difficulty_balance qs)
       = (br_balance_score (validate_difficulty_balance qs) \<ge> to_double (7 / 10))"
    by (rule validate_report(5))
qed

theorem balance_score_properties_witness:
  "calculate_balance_score [EASY \<mapsto> 0.5, MEDIUM \<mapsto> 0.5, HARD \<mapsto> 0] < 1
   \<and> br_total_questions (validate_difficulty_balance
         [Tier EASY, Tier MEDIUM, Tier EASY, Tier MEDIUM, Tier HARD]) = 5
   \<and> br_difficulty_counts (validate_difficulty_balance
         [Tier EASY, Tier MEDIUM, Tier EASY, Tier MEDIUM, Tier HARD]) EASY = 2
   \<and> br_difficulty_counts (validate_difficulty_balance
         [Tier EASY, Tier MEDIUM, Tier EASY, Tier MEDIUM, Tier HARD]) HARD = 1
   \<and> br_difficulty_ratios (validate_difficulty_balance
         [Tier EASY, Tier MEDIUM, Tier EASY, Tier MEDIUM, Tier HARD]) HARD = Some (to_double (1 / 5))
   \<and> br_balance_score (validate_difficulty_balance
         [Tier EASY, Tier MEDIUM, Tier EASY, Tier MEDIUM, Tier HARD]) = 1
   \<and> br_is_balanced (validate_difficulty_balance
         [Tier EASY, Tier MEDIUM, Tier EASY, Tier MEDIUM, Tier HARD])
   \<and> br_total_questions (validate_difficulty_balance
         [Tier EASY, NoAttribute, Tier EASY, OtherValue]) = 4
   \<and> br_difficulty_counts (validate_difficulty_balance
         [Tier EASY, NoAttribute, Tier EASY, OtherValue]) MEDIUM = 1
   \<and> br_difficulty_ratios (validate_difficulty_balance
         [Tier EASY, NoAttribute, Tier EASY, OtherValue]) MEDIUM = Some (1 / 4)
   \<and> br_balance_score (validate_difficulty_balance
         [Tier EASY, NoAttribute, Tier EASY, OtherValue]) < 1"
proof -
  let ?r = "[EASY \<mapsto> 0.5, MEDIUM \<mapsto> 0.5, HARD \<mapsto> 0 :: real]"
  let ?a = "[Tier EASY, Tier MEDIUM, Tier EASY, Tier MEDIUM, Tier HARD]"
  let ?b = "[Tier EASY, NoAttribute, Tier EASY, OtherValue]"
  have h: "observed ?r HARD = 0" by (simp add: observed_def)
  have ca: "tier_count EASY ?a = 2" "tier_count HARD ?a = 1" by code_simp+
  have ra: "int_truediv (int (tier_count HARD ?a)) (int (length ?a)) = to_double (1 / 5)"
    by code_simp
  have sa: "calculate_balance_score
           (\<lambda>t. Some (if ?a = [] then 0 else int_truediv (int (tier_count t ?a)) (int (length ?a)))) = 1"
    by code_simp
  have ba: "to_double (7 / 10) \<le> 1" by code_simp
  have cb: "tier_count MEDIUM ?b = 1" "tier_count HARD ?b = 0" by code_simp+
  have rb: "int_truediv (int (tier_count MEDIUM ?b)) (int (length ?b)) = 1 / 4"
    by code_simp
  note A = balance_score_properties [of ?r ?a EASY]
  note B = balance_score_properties [of ?r ?a HARD]
  note C = balance_score_properties [of ?r ?b MEDIUM]
  show ?thesis using A B C h ca ra sa ba cb rb by simp
qed

section \<open>Generation of a single question\<close>

lemma generate_single_question_returns:
  "\<exists>r. generate_single_question env n s d = Inr r"
  by (simp add: generate_single_question_def split: sum.split)

lemma parse_response_returns: "\<exists>r. parse_response env reply = Inr r"
  by (simp add: parse_response_def split: sum.split py_exception.split)

lemma check_required_object:
  "check_required fs (JObject kvs) = Inr (set fs \<subseteq> set (map fst kvs))"
  by (induction fs) (auto split: bool.splits)

lemma parse_response_no_payload:
  "extract_json_from_response reply = None \<or> extract_json_from_response reply = Some []
   \<Longrightarrow> parse_response env reply = Inr None"
  by (auto simp: parse_response_def parse_response_body_def)

lemma parse_response_decode_error:
  "extract_json_from_response reply = Some jc \<Longrightarrow> json_loads env jc = Inl e
   \<Longrightarrow> parse_response env reply = Inr None"
  by (auto simp: parse_response_def parse_response_body_def split: py_exception.split)

lemma parse_response_missing_field:
  "extract_json_from_response reply = Some jc \<Longrightarrow> json_loads env jc = Inr (JObject kvs)
   \<Longrightarrow> \<not> set required_fields \<subseteq> set (map fst kvs)
   \<Longrightarrow> parse_response env reply = Inr None"
  by (auto simp: parse_response_def parse_response_body_def check_required_object
      split: py_exception.split)

lemma parse_response_default_keywords:
  "extract_json_from_response reply = Some jc \<Longrightarrow> jc \<noteq> [] \<Longrightarrow>
   json_loads env jc = Inr (JObject kvs) \<Longrightarrow> set required_fields \<subseteq> set (map fst kvs) \<Longrightarrow>
   ''keywords'' \<notin> set (map fst kvs) \<Longrightarrow>
   parse_response env reply = Inr (Some (JObject (kvs @ [(''keywords'', JArray [])])))"
  by (simp add: parse_response_def parse_response_body_def check_required_object)

lemma generate_single_question_of_parse:
  "create_question_prompt env s d = Inr prompt \<Longrightarrow> llm_invoke env n prompt = Inr reply \<Longrightarrow>
   parse_response env reply = Inr None \<Longrightarrow> generate_single_question env n s d = Inr None"
  by (simp add: generate_single_question_def generate_single_question_body_def)

lemma generate_loop_result:
  "generate_loop env s ds calls qs =
     Inr (qs @ successes env (length calls) s ds, calls @ map (Pair (slide_number s)) ds)"
proof (induction ds arbitrary: calls qs)
  case Nil
  then show ?case by simp
next
  case (Cons d ds)
  obtain r where r: "generate_single_question env (length calls) s d = Inr r"
    using generate_single_question_returns by blast
  show ?case
  proof (cases r)
    case None
    with r Cons.IH [of "calls @ [(slide_number s, d)]" qs] show ?thesis by simp
  next
    case (Some q)
    with r Cons.IH [of "calls @ [(slide_number s, d)]" "qs @ [q]"] show ?thesis by simp
  qed
qed

lemma generate_questions_for_slide_result:
  "generate_questions_for_slide env calls s (Some alloc) =
     Inr (\<lparr>qa_slide_number = slide_number s, qa_slide_title = title s,
           qa_questions = successes env (length calls) s (requested_tiers alloc)\<rparr>,
          calls @ map (Pair (slide_number s)) (requested_tiers alloc))"
  by (simp add: generate_questions_for_slide_def generate_loop_result)

text \<open>
  C7. Generating a single question never raises: its result is a question or nothing.
  It is nothing when the model call raises, when no payload (or an empty one) is
  extracted from the reply, when the payload fails to decode, and when the decoded
  object lacks one of the five required fields. When the five are present and
  \<open>keywords\<close> is not, parsing succeeds with \<open>keywords\<close> set to the empty list, and
  the question is the one the constructor builds from that. The loop over the requested
  questions of a slide makes every call asked for, whatever the outcome of the earlier
  ones, and keeps the questions of the successful calls.
\<close>

theorem single_question_failure_absorbed:
  "(\<exists>r. generate_single_question env n s d = Inr r)
   \<and> (create_question_prompt env s d = Inr prompt \<longrightarrow>
        (llm_invoke env n prompt = Inl e \<longrightarrow> generate_single_question env n s d = Inr None)
      \<and> (llm_invoke env n prompt = Inr reply \<longrightarrow>
           (extract_json_from_response reply = None \<or> extract_json_from_response reply = Some []
              \<longrightarrow> generate_single_question env n s d = Inr None)
         \<and> (extract_json_from_response reply = Some jc \<longrightarrow>
              (json_loads env jc = Inl e \<longrightarrow> generate_single_question env n s d = Inr None)
            \<and> (json_loads env jc = Inr (JObject kvs) \<longrightarrow>
                 (\<not> set required_fields \<subseteq> set (map fst kvs)
                    \<longrightarrow> generate_single_question env n s d = Inr None)
               \<and> (jc \<noteq> [] \<and> set required_fields \<subseteq> set (map fst kvs)
                     \<and> ''keywords'' \<notin> set (map fst kvs) \<longrightarrow>
                    parse_response env reply
                      = Inr (Some (JObject (kvs @ [(''keywords'', JArray [])])))
                  \<and> generate_single_question env n s d
                      = (case construct_question env (kvs @ [(''keywords'', JArray [])]) of
                           Inl e' \<Rightarrow> Inr None | Inr q \<Rightarrow> Inr (Some q)))))))
   \<and> generate_questions_for_slide env calls s (Some alloc) =
       Inr (\<lparr>qa_slide_number = slide_number s, qa_slide_title = title s,
             qa_questions = successes env (length calls) s (requested_tiers alloc)\<rparr>,
            calls @ map (Pair (slide_number s)) (requested_tiers alloc))"
proof (intro conjI impI)
  show "\<exists>r. generate_single_question env n s d = Inr r"
    by (rule generate_single_question_returns)
next
  assume "create_question_prompt env s d = Inr prompt" "llm_invoke env n prompt = Inl e"
  then show "generate_single_question env n s d = Inr None"
    by (simp add: generate_single_question_def generate_single_question_body_def)
next
  assume "create_question_prompt env s d = Inr prompt" "llm_invoke env n prompt = Inr reply"
    "extract_json_from_response reply = None \<or> extract_json_from_response reply = Some []"
  then show "generate_single_question env n s d = Inr None"
    using generate_single_question_of_parse parse_response_no_payload by blast
next
  assume "create_question_prompt env s d = Inr prompt" "llm_invoke env n prompt = Inr reply"
    "extract_json_from_response reply = Some jc" "json_loads env jc = Inl e"
  then show "generate_single_question env n s d = Inr None"
    using generate_single_question_of_parse parse_response_decode_error by blast
next
  assume "create_question_prompt env s d = Inr prompt" "llm_invoke env n prompt = Inr reply"
    "extract_json_from_response reply = Some jc" "json_loads env jc = Inr (JObject kvs)"
    "\<not> set required_fields \<subseteq> set (map fst kvs)"
  then show "generate_single_question env n s d = Inr None"
    using generate_single_question_of_parse parse_response_missing_field by blast
next
  assume a: "create_question_prompt env s d = Inr prompt" "llm_invoke env n prompt = Inr reply"
    "extract_json_from_response reply = Some jc" "json_loads env jc = Inr (JObject kvs)"
    "jc \<noteq> [] \<and> set required_fields \<subseteq> set (map fst kvs) \<and> ''keywords'' \<notin> set (map fst kvs)"
  then show p: "parse_response env reply = Inr (Some (JObject (kvs @ [(''keywords'', JArray [])])))"
    using parse_response_default_keywords by blast
  from a p show "generate_single_question env n s d
                      = (case construct_question env (kvs @ [(''keywords'', JArray [])]) of
                           Inl e' \<Rightarrow> Inr None | Inr q \<Rightarrow> Inr (Some q))"
    by (simp add: generate_single_question_def generate_single_question_body_def split: sum.split)
next
  show "generate_questions_for_slide env calls s (Some alloc) =
       Inr (\<lparr>qa_slide_number = slide_number s, qa_slide_title = title s,
             qa_questions = successes env (length calls) s (requested_tiers alloc)\<rparr>,
            calls @ map (Pair (slide_number s)) (requested_tiers alloc))"
    by (rule generate_questions_for_slide_result)
qed


theorem single_question_failure_absorbed_witness:
  "generate_single_question sample_env 0 sample_slide EASY = Inr (Some sample_question)
   \<and> generate_single_question sample_env 1 sample_slide EASY = Inr None
   \<and> generate_single_question sample_env 2 sample_slide MEDIUM = Inr None
   \<and> generate_single_question sample_env 3 sample_slide MEDIUM = Inr None
   \<and> generate_single_question sample_env 4 sample_slide HARD = Inr None
   \<and> generate_questions_for_slide sample_env [] sample_slide (Some sample_counts) =
       Inr (\<lparr>qa_slide_number = 1, qa_slide_title = ''Cells'', qa_questions = [sample_question]\<rparr>,
            [(1, EASY), (1, EASY), (1, MEDIUM), (1, MEDIUM), (1, HARD)])"
proof -
  note t = single_question_failure_absorbed [where env = sample_env and s = sample_slide
      and prompt = "''prompt''"]
  have p: "create_question_prompt sample_env sample_slide d = Inr ''prompt''" for d
    by (simp add: sample_env_def)
  have l: "llm_invoke sample_env n ''prompt'' = sample_reply n" for n
    by (simp add: sample_env_def)
  have x0: "extract_json_from_response (''Here is the question: '' @ sample_json @ '' Good luck!'')
              = Some sample_json"
    by code_simp
  have x2: "extract_json_from_response ''I cannot answer that.'' = None"
    by code_simp
  have x3: \<open>extract_json_from_response ''{"question": }'' = Some ''{"question": }''\<close>
    by code_simp
  have x4: \<open>extract_json_from_response ''{"question": "q"}'' = Some ''{"question": "q"}''\<close>
    by code_simp
  have ne: "sample_json \<noteq> []" by code_simp
  have d3: \<open>''{"question": }'' \<noteq> sample_json\<close> by code_simp
  have d4: \<open>''{"question": "q"}'' \<noteq> sample_json\<close> by code_simp
  have j0: "json_loads sample_env sample_json = Inr (JObject sample_payload)"
    by (simp add: sample_env_def)
  have j3: \<open>json_loads sample_env ''{"question": }'' = Inl JSONDecodeError\<close>
    using d3 by (simp add: sample_env_def)
  have j4: \<open>json_loads sample_env ''{"question": "q"}'' = Inr (JObject [(''question'', JString ''q'')])\<close>
    using d4 by (simp add: sample_env_def)
  have f0: "set required_fields \<subseteq> set (map fst sample_payload)"
    "''keywords'' \<notin> set (map fst sample_payload)"
    by (simp_all add: required_fields_def sample_payload_def)
  have f4: "\<not> set required_fields \<subseteq> set (map fst [(''question'', JString ''q'')])"
    by (simp add: required_fields_def)
  have c0: "construct_question sample_env (sample_payload @ [(''keywords'', JArray [])])
              = Inr sample_question"
    by (simp add: sample_env_def)
  have g0: "generate_single_question sample_env 0 sample_slide EASY = Inr (Some sample_question)"
    using t [where n = 0 and d = EASY and jc = sample_json and kvs = sample_payload
        and reply = "''Here is the question: '' @ sample_json @ '' Good luck!''"]
      p l x0 ne j0 f0 c0 by (simp add: sample_reply_def)
  have g1: "generate_single_question sample_env 1 sample_slide d = Inr None" for d
    using t [where n = 1 and d = d and e = "Raised ''timeout''"] p l by (simp add: sample_reply_def)
  have g2: "generate_single_question sample_env 2 sample_slide d = Inr None" for d
    using t [where n = 2 and d = d and reply = "''I cannot answer that.''"] p l x2
    by (simp add: sample_reply_def)
  have g3: "generate_single_question sample_env 3 sample_slide d = Inr None" for d
    using t [where n = 3 and d = d and reply = \<open>''{"question": }''\<close>
        and jc = \<open>''{"question": }''\<close> and e = JSONDecodeError] p l x3 j3
    by (simp add: sample_reply_def)
  have g4: "generate_single_question sample_env 4 sample_slide d = Inr None" for d
    using t [where n = 4 and d = d and reply = \<open>''{"question": "q"}''\<close>
        and jc = \<open>''{"question": "q"}''\<close> and kvs = "[(''question'', JString ''q'')]"]
      p l x4 j4 f4 by (simp add: sample_reply_def)
  have r: "requested_tiers sample_counts = [EASY, EASY, MEDIUM, MEDIUM, HARD]"
    by (simp add: requested_tiers_def sample_counts_def numeral_2_eq_2)
  have sl: "slide_number sample_slide = 1" "title sample_slide = ''Cells''"
    by (simp_all add: sample_slide_def)
  have g: "generate_questions_for_slide sample_env [] sample_slide (Some sample_counts) =
       Inr (\<lparr>qa_slide_number = 1, qa_slide_title = ''Cells'', qa_questions = [sample_question]\<rparr>,
            [(1, EASY), (1, EASY), (1, MEDIUM), (1, MEDIUM), (1, HARD)])"
    using t [where calls = "[]" and alloc = sample_counts] r sl g0 g1 g2 g3 g4
    by (simp add: numeral_eq_Suc)
  from g0 g1 g2 g3 g4 g show ?thesis by blast
qed

section \<open>Allocation of tiers to slides\<close>

lemma distribute_step_cases:
  "distribute_step d (alloc, pool, qc) =
     (if pool d > 0 \<and> qc > 0 then (alloc(d := 1), pool(d := pool d - 1), qc - 1)
      else (alloc, pool, qc))"
  by (simp add: distribute_step_def Let_def)

lemma distribute_result:
  "distribute_difficulty_for_slide qc pool = (alloc, pool') \<Longrightarrow>
     alloc EASY = (if pool EASY > 0 \<and> qc > 0 then 1 else 0)
   \<and> alloc MEDIUM = (if pool MEDIUM > 0 \<and> qc - alloc EASY > 0 then 1 else 0)
   \<and> alloc HARD = (if pool HARD > 0 \<and> qc - alloc EASY - alloc MEDIUM > 0 then 1 else 0)
   \<and> (\<forall>t. pool' t = pool t - alloc t)"
proof -
  assume a: "distribute_difficulty_for_slide qc pool = (alloc, pool')"
  have t: "(\<forall>t. P t) = (P EASY \<and> P MEDIUM \<and> P HARD)" for P
    by (metis DifficultyLevel.exhaust)
  show ?thesis
    using a
    by (simp add: distribute_difficulty_for_slide_def distribute_step_cases t
        split: if_splits) auto
qed

lemma distribute_min:
  assumes "distribute_difficulty_for_slide qc pool = (alloc, pool')"
    and "\<forall>t. 0 \<le> pool t" and "0 \<le> qc"
  shows "alloc EASY = min 1 (min (pool EASY) qc)
   \<and> alloc MEDIUM = min 1 (min (pool MEDIUM) (qc - alloc EASY))
   \<and> alloc HARD = min 1 (min (pool HARD) (qc - alloc EASY - alloc MEDIUM))"
proof -
  note r = distribute_result [OF assms(1)]
  have p: "0 \<le> pool EASY" "0 \<le> pool MEDIUM" "0 \<le> pool HARD"
    using assms(2) by simp_all
  have e: "alloc EASY = min 1 (min (pool EASY) qc)"
    using r p assms(3) by (auto simp: min_def)
  have q1: "0 \<le> qc - alloc EASY" using e assms(3) by (auto simp: min_def split: if_splits)
  have m: "alloc MEDIUM = min 1 (min (pool MEDIUM) (qc - alloc EASY))"
    using r q1 p by (auto simp: min_def)
  have q2: "0 \<le> qc - alloc EASY - alloc MEDIUM"
    using m q1 by (auto simp: min_def split: if_splits)
  have h: "alloc HARD = min 1 (min (pool HARD) (qc - alloc EASY - alloc MEDIUM))"
    using r q2 p by (auto simp: min_def)
  from e m h show ?thesis by blast
qed

lemma distribute_bounds:
  assumes "distribute_difficulty_for_slide qc pool = (alloc, pool')"
  shows "0 \<le> alloc t" and "alloc t \<le> 1" and "pool' t = pool t - alloc t"
    and "0 \<le> pool t \<Longrightarrow> 0 \<le> pool' t"
  using distribute_result [OF assms] by (cases t; auto split: if_splits)+


lemma plan_pools_nonneg:
  "\<forall>t. 0 \<le> pool t \<Longrightarrow> (s, alloc, pool') \<in> set (allocation_plan qps remq i slides pool)
   \<Longrightarrow> 0 \<le> pool' t"
proof (induction slides arbitrary: i pool)
  case Nil
  then show ?case by simp
next
  case (Cons x slides)
  obtain a p where d: "distribute_difficulty_for_slide (if int i < remq then qps + 1 else qps) pool
      = (a, p)" by (cases "distribute_difficulty_for_slide (if int i < remq then qps + 1 else qps) pool")
  have p: "\<forall>t. 0 \<le> p t" using distribute_bounds(4) [OF d] Cons.prems(1) by blast
  from Cons.prems(2) d
  have "(s, alloc, pool') = (x, a, p) \<or> (s, alloc, pool') \<in> set (allocation_plan qps remq (Suc i) slides p)"
    by simp
  then show ?case using p Cons.IH [OF p] by auto
qed

lemma plan_allocated_le:
  "\<forall>t. 0 \<le> pool t \<Longrightarrow> allocated (allocation_plan qps remq i slides pool) t \<le> pool t"
proof (induction slides arbitrary: i pool)
  case Nil
  then show ?case by (simp add: allocated_def)
next
  case (Cons x slides)
  obtain a p where d: "distribute_difficulty_for_slide (if int i < remq then qps + 1 else qps) pool
      = (a, p)" by (cases "distribute_difficulty_for_slide (if int i < remq then qps + 1 else qps) pool")
  have p: "\<forall>t. 0 \<le> p t" using distribute_bounds(4) [OF d] Cons.prems by blast
  have "allocated (allocation_plan qps remq (Suc i) slides p) t \<le> p t"
    using Cons.IH [OF p] .
  moreover have "p t = pool t - a t" using distribute_bounds(3) [OF d] .
  ultimately show ?case using d by (simp add: allocated_def)
qed

lemma count_list_replicate: "count_list (replicate n x) y = (if x = y then n else 0)"
  by (induction n) auto

lemma count_requested_tiers: "count_list (requested_tiers alloc) t = nat (alloc t)"
  by (cases t) (simp_all add: requested_tiers_def count_list_replicate)

lemma tier_calls_append: "tier_calls t (xs @ ys) = tier_calls t xs + tier_calls t ys"
  by (simp add: tier_calls_def)

lemma tier_calls_slide:
  "tier_calls t (map (Pair n) (requested_tiers alloc)) = int (nat (alloc t))"
  by (simp add: tier_calls_def comp_def count_requested_tiers)

lemma tier_calls_plan:
  "tier_calls t (plan_calls (allocation_plan qps remq i slides pool))
     = allocated (allocation_plan qps remq i slides pool) t"
proof (induction slides arbitrary: i pool)
  case Nil
  then show ?case by (simp add: allocated_def plan_calls_def tier_calls_def)
next
  case (Cons x slides)
  obtain a p where d: "distribute_difficulty_for_slide (if int i < remq then qps + 1 else qps) pool
      = (a, p)" by (cases "distribute_difficulty_for_slide (if int i < remq then qps + 1 else qps) pool")
  have "0 \<le> a t" using distribute_bounds(1) [OF d] .
  then have "tier_calls t (map (Pair (slide_number x)) (requested_tiers a)) = a t"
    by (simp add: tier_calls_slide)
  moreover have "tier_calls t (plan_calls (allocation_plan qps remq (Suc i) slides p))
     = allocated (allocation_plan qps remq (Suc i) slides p) t"
    using Cons.IH .
  ultimately show ?case
    using d by (simp add: plan_calls_def allocated_def tier_calls_append)
qed

lemma successes_length:
  "every_call_succeeds env \<Longrightarrow> length (successes env n s ds) = length ds"
proof (induction ds arbitrary: n)
  case Nil
  then show ?case by simp
next
  case (Cons d ds)
  from Cons.prems obtain q where "generate_single_question env n s d = Inr (Some q)"
    unfolding every_call_succeeds_def by blast
  then show ?case using Cons by simp
qed

lemma comprehensive_loop_result:
  "\<exists>sets'. comprehensive_loop env qps remq i slides pool calls sets
      = Inr (sets @ sets', calls @ plan_calls (allocation_plan qps remq i slides pool))
    \<and> map qa_slide_number sets' = map slide_number slides
    \<and> (every_call_succeeds env \<longrightarrow>
         map (\<lambda>qa. length (qa_questions qa)) sets'
           = map (\<lambda>(s, alloc, pool'). length (requested_tiers alloc))
               (allocation_plan qps remq i slides pool))"
proof (induction slides arbitrary: i pool calls sets)
  case Nil
  then show ?case by (simp add: plan_calls_def)
next
  case (Cons x slides)
  obtain a p where d: "distribute_difficulty_for_slide (if int i < remq then qps + 1 else qps) pool
      = (a, p)" by (cases "distribute_difficulty_for_slide (if int i < remq then qps + 1 else qps) pool")
  let ?qa = "\<lparr>qa_slide_number = slide_number x, qa_slide_title = title x,
           qa_questions = successes env (length calls) x (requested_tiers a)\<rparr>"
  let ?calls = "calls @ map (Pair (slide_number x)) (requested_tiers a)"
  from Cons.IH [of "Suc i" p ?calls "sets @ [?qa]"]
  obtain rest where r: "comprehensive_loop env qps remq (Suc i) slides p ?calls (sets @ [?qa])
      = Inr ((sets @ [?qa]) @ rest, ?calls @ plan_calls (allocation_plan qps remq (Suc i) slides p))"
    and n: "map qa_slide_number rest = map slide_number slides"
    and l: "every_call_succeeds env \<longrightarrow>
         map (\<lambda>qa. length (qa_questions qa)) rest
           = map (\<lambda>(s, alloc, pool'). length (requested_tiers alloc))
               (allocation_plan qps remq (Suc i) slides p)"
    by blast
  have "comprehensive_loop env qps remq i (x # slides) pool calls sets
      = Inr (sets @ (?qa # rest), calls @ plan_calls (allocation_plan qps remq i (x # slides) pool))"
    using d r by (simp add: generate_questions_for_slide_result plan_calls_def Let_def)
  moreover have "map qa_slide_number (?qa # rest) = map slide_number (x # slides)"
    using n by simp
  moreover have "every_call_succeeds env \<longrightarrow>
         map (\<lambda>qa. length (qa_questions qa)) (?qa # rest)
           = map (\<lambda>(s, alloc, pool'). length (requested_tiers alloc))
               (allocation_plan qps remq i (x # slides) pool)"
    using l d by (simp add: successes_length)
  ultimately show ?case by blast
qed

lemma initial_counts:
  "(\<lambda>d. case d of EASY \<Rightarrow> py_int (fmul (float_of_int total_qs) (ratio_or_default ratio EASY))
                  | MEDIUM \<Rightarrow> py_int (fmul (float_of_int total_qs) (ratio_or_default ratio MEDIUM))
                  | HARD \<Rightarrow> total_qs - py_int (fmul (float_of_int total_qs) (ratio_or_default ratio EASY))
                             - py_int (fmul (float_of_int total_qs) (ratio_or_default ratio MEDIUM)))
   = calculate_difficulty_distribution total_qs ratio"
  by (simp add: calculate_difficulty_distribution_def Let_def)

lemma generate_comprehensive_qa_result:
  "\<exists>sets. generate_comprehensive_qa env calls slides total_qs ratio
      = Inr (sets, calls @ plan_calls (run_plan slides total_qs ratio))
    \<and> map qa_slide_number sets = map slide_number (filter has_sufficient_content slides)
    \<and> (every_call_succeeds env \<longrightarrow>
         map (\<lambda>qa. length (qa_questions qa)) sets
           = map (\<lambda>(s, alloc, pool'). length (requested_tiers alloc))
               (run_plan slides total_qs ratio))"
proof (cases "filter has_sufficient_content slides = []")
  case True
  then show ?thesis
    by (simp add: generate_comprehensive_qa_def run_plan_def plan_calls_def Let_def)
next
  case False
  then show ?thesis
    using comprehensive_loop_result [of env
        "total_qs div int (length (filter has_sufficient_content slides))"
        "total_qs mod int (length (filter has_sufficient_content slides))" 0
        "filter has_sufficient_content slides"
        "calculate_difficulty_distribution total_qs ratio" calls "[]"]
    by (simp add: generate_comprehensive_qa_def run_plan_def Let_def initial_counts)
qed


lemma distribute_step_nonneg:
  "\<forall>t. 0 \<le> pool t \<Longrightarrow> 0 \<le> fst (snd (distribute_step d (alloc, pool, qc))) t"
  by (simp add: distribute_step_cases)

text \<open>
  C8, as stated, fails. For the total 10 and the ratios -0.25, 0.5, 0.75, which sum to
  1.0, the initial easy count is -2. The allocation for the first slide, which needs 4
  questions, draws 0 from the easy tier, not \<open>min(1, -2, 4) = -2\<close>; the remaining easy
  count is -2 after it; and the run makes no call for the easy tier, which is more than
  its initial count.
\<close>

theorem tier_pool_negative_counterexample:
  "sums_to_one skewed_ratio
   \<and> calculate_difficulty_distribution 10 (Some skewed_ratio) EASY = - 2
   \<and> fst (distribute_difficulty_for_slide 4
             (calculate_difficulty_distribution 10 (Some skewed_ratio))) EASY = 0
   \<and> min 1 (min (calculate_difficulty_distribution 10 (Some skewed_ratio) EASY) 4) = - 2
   \<and> snd (distribute_difficulty_for_slide 4
             (calculate_difficulty_distribution 10 (Some skewed_ratio))) EASY = - 2
   \<and> map_sum id snd (generate_comprehensive_qa reliable_env [] four_slides 10 (Some skewed_ratio))
       = Inr [(1, MEDIUM), (1, HARD), (3, MEDIUM), (3, HARD), (4, MEDIUM), (4, HARD)]
   \<and> tier_calls EASY [(1, MEDIUM), (1, HARD), (3, MEDIUM), (3, HARD), (4, MEDIUM), (4, HARD)] = 0
   \<and> calculate_difficulty_distribution 10 (Some skewed_ratio) EASY
       < tier_calls EASY [(1, MEDIUM), (1, HARD), (3, MEDIUM), (3, HARD), (4, MEDIUM), (4, HARD)]"
proof (intro conjI)
  show "map_sum id snd (generate_comprehensive_qa reliable_env [] four_slides 10 (Some skewed_ratio))
       = Inr [(1, MEDIUM), (1, HARD), (3, MEDIUM), (3, HARD), (4, MEDIUM), (4, HARD)]"
    by code_simp
qed (code_simp+)

text \<open>
  C8, amended. The claim holds for remaining counts that are non-negative. A draw from
  one tier leaves every remaining count non-negative when they were so before. For
  non-negative remaining counts and a non-negative number of questions still needed, the
  allocation for a slide draws \<open>min(1, remaining, still needed)\<close> from easy, then
  medium, then hard, and takes what it draws from the remaining counts, which stay
  non-negative. In a comprehensive run whose initial counts, computed from the ratio, are
  non-negative, the remaining counts after every slide are non-negative, the run makes
  exactly the calls that the allocation asks for, and the calls of a tier over all slides
  do not exceed the initial count of the tier. The initial counts are non-negative for a
  total from 0 to below \<open>2 ^ 48\<close> and a ratio mapping, given or default, whose values
  are non-negative and sum to 1.0.
\<close>

theorem tier_pool_invariant:
  "((\<forall>t. 0 \<le> pool t) \<longrightarrow> (\<forall>t. 0 \<le> fst (snd (distribute_step d (alloc0, pool, qc))) t))
   \<and> (distribute_difficulty_for_slide qc pool = (alloc, pool') \<and> (\<forall>t. 0 \<le> pool t) \<and> 0 \<le> qc \<longrightarrow>
         alloc EASY = min 1 (min (pool EASY) qc)
       \<and> alloc MEDIUM = min 1 (min (pool MEDIUM) (qc - alloc EASY))
       \<and> alloc HARD = min 1 (min (pool HARD) (qc - alloc EASY - alloc MEDIUM))
       \<and> (\<forall>t. pool' t = pool t - alloc t \<and> 0 \<le> pool' t))
   \<and> ((\<forall>t. 0 \<le> calculate_difficulty_distribution total_qs ratio t) \<longrightarrow>
         (\<forall>(s, alloc, pool') \<in> set (run_plan slides total_qs ratio). \<forall>t. 0 \<le> pool' t)
       \<and> (\<exists>sets. generate_comprehensive_qa env [] slides total_qs ratio
                     = Inr (sets, plan_calls (run_plan slides total_qs ratio)))
       \<and> (\<forall>t. tier_calls t (plan_calls (run_plan slides total_qs ratio))
                \<le> calculate_difficulty_distribution total_qs ratio t))
   \<and> (0 \<le> total_qs \<and> total_qs < 2 ^ 48 \<and> (\<forall>t. 0 \<le> ratio_or_default ratio t)
        \<and> sums_to_one (ratio_or_default ratio) \<longrightarrow>
         (\<forall>t. 0 \<le> calculate_difficulty_distribution total_qs ratio t))"
proof (intro conjI impI)
  show "\<forall>t. 0 \<le> fst (snd (distribute_step d (alloc0, pool, qc))) t" if "\<forall>t. 0 \<le> pool t"
    using distribute_step_nonneg [OF that] by blast
next
  assume "0 \<le> total_qs \<and> total_qs < 2 ^ 48 \<and> (\<forall>t. 0 \<le> ratio_or_default ratio t)
        \<and> sums_to_one (ratio_or_default ratio)"
  then show "\<forall>t. 0 \<le> calculate_difficulty_distribution total_qs ratio t"
    by (intro allI distribution_nonneg) simp_all
next
  assume a: "distribute_difficulty_for_slide qc pool = (alloc, pool') \<and> (\<forall>t. 0 \<le> pool t) \<and> 0 \<le> qc"
  then have d: "distribute_difficulty_for_slide qc pool = (alloc, pool')"
    and p: "\<forall>t. 0 \<le> pool t" and q: "0 \<le> qc" by blast+
  from distribute_min [OF d p q]
  show "alloc EASY = min 1 (min (pool EASY) qc)"
    and "alloc MEDIUM = min 1 (min (pool MEDIUM) (qc - alloc EASY))"
    and "alloc HARD = min 1 (min (pool HARD) (qc - alloc EASY - alloc MEDIUM))"
    by blast+
  show "\<forall>t. pool' t = pool t - alloc t \<and> 0 \<le> pool' t"
    using distribute_bounds(3,4) [OF d] p by blast
next
  assume n: "\<forall>t. 0 \<le> calculate_difficulty_distribution total_qs ratio t"
  show "\<forall>(s, alloc, pool') \<in> set (run_plan slides total_qs ratio). \<forall>t. 0 \<le> pool' t"
    using plan_pools_nonneg [OF n] by (auto simp: run_plan_def Let_def)
  show "\<exists>sets. generate_comprehensive_qa env [] slides total_qs ratio
                     = Inr (sets, plan_calls (run_plan slides total_qs ratio))"
    using generate_comprehensive_qa_result [of env "[]" slides total_qs ratio] by auto
  show "\<forall>t. tier_calls t (plan_calls (run_plan slides total_qs ratio))
                \<le> calculate_difficulty_distribution total_qs ratio t"
    using plan_allocated_le [OF n] by (simp add: run_plan_def Let_def tier_calls_plan)
qed

lemma default_pool:
  "calculate_difficulty_distribution 6 None
     = (\<lambda>d. case d of EASY \<Rightarrow> 2 | MEDIUM \<Rightarrow> 2 | HARD \<Rightarrow> 2)"
proof -
  have "py_int (fmul (float_of_int 6) (to_double (2 / 5))) = 2" by code_simp
  then show ?thesis
    by (simp add: calculate_difficulty_distribution_def ratio_or_default_def default_ratio_def
        Let_def)
qed

lemma default_plan_calls:
  "filter has_sufficient_content slides = [s1, s2, s3] \<Longrightarrow>
   plan_calls (run_plan slides 6 None)
     = [(slide_number s1, EASY), (slide_number s1, MEDIUM), (slide_number s2, EASY),
        (slide_number s2, MEDIUM), (slide_number s3, HARD)]
   \<and> map (\<lambda>(s, alloc, pool'). length (requested_tiers alloc)) (run_plan slides 6 None)
     = [2, 2, 1]"
  by (simp add: run_plan_def default_pool plan_calls_def distribute_difficulty_for_slide_def
      distribute_step_cases requested_tiers_def)

text \<open>
  C2, amended. With 6 questions and the default ratio the counts computed from the ratio
  are 2, 2 and 2. When exactly three slides of the input pass the content gate, the run
  returns question sets for these three, in input order; each slide draws at most one
  question per tier, so the calls are easy and medium for the first, easy and medium for
  the second and hard for the third, which is 2, 2 and 1 per tier; when every call
  succeeds the sets hold 2, 2 and 1 questions.
\<close>

theorem default_run_allocation:
  "calculate_difficulty_distribution 6 None EASY = 2
   \<and> calculate_difficulty_distribution 6 None MEDIUM = 2
   \<and> calculate_difficulty_distribution 6 None HARD = 2
   \<and> (filter has_sufficient_content slides = [s1, s2, s3] \<longrightarrow>
        (\<exists>sets. generate_comprehensive_qa env [] slides 6 None
            = Inr (sets, [(slide_number s1, EASY), (slide_number s1, MEDIUM),
                          (slide_number s2, EASY), (slide_number s2, MEDIUM),
                          (slide_number s3, HARD)])
          \<and> map qa_slide_number sets = [slide_number s1, slide_number s2, slide_number s3]
          \<and> (every_call_succeeds env \<longrightarrow>
               map (\<lambda>qa. length (qa_questions qa)) sets = [2, 2, 1])))"
proof (intro conjI impI)
  show "calculate_difficulty_distribution 6 None EASY = 2"
    "calculate_difficulty_distribution 6 None MEDIUM = 2"
    "calculate_difficulty_distribution 6 None HARD = 2"
    by (simp_all add: default_pool)
next
  assume f: "filter has_sufficient_content slides = [s1, s2, s3]"
  from generate_comprehensive_qa_result [of env "[]" slides 6 None]
    default_plan_calls [OF f] f
  show "\<exists>sets. generate_comprehensive_qa env [] slides 6 None
            = Inr (sets, [(slide_number s1, EASY), (slide_number s1, MEDIUM),
                          (slide_number s2, EASY), (slide_number s2, MEDIUM),
                          (slide_number s3, HARD)])
          \<and> map qa_slide_number sets = [slide_number s1, slide_number s2, slide_number s3]
          \<and> (every_call_succeeds env \<longrightarrow>
               map (\<lambda>qa. length (qa_questions qa)) sets = [2, 2, 1])"
    by auto
qed

text \<open>
  C2, as stated, fails: for four slides of which the second does not pass the gate, and
  a model whose every reply parses, the run makes five calls, of which one is for the
  hard tier, not two.
\<close>

theorem default_run_hard_tier_counterexample:
  "length four_slides = 4
   \<and> map has_sufficient_content four_slides = [True, False, True, True]
   \<and> generate_comprehensive_qa reliable_env [] four_slides 6 None
      = Inr ([\<lparr>qa_slide_number = 1, qa_slide_title = ''Slide'',
                qa_questions = [sample_question, sample_question]\<rparr>,
              \<lparr>qa_slide_number = 3, qa_slide_title = ''Slide'',
                qa_questions = [sample_question, sample_question]\<rparr>,
              \<lparr>qa_slide_number = 4, qa_slide_title = ''Slide'',
                qa_questions = [sample_question]\<rparr>],
             [(1, EASY), (1, MEDIUM), (3, EASY), (3, MEDIUM), (4, HARD)])
   \<and> tier_calls EASY [(1, EASY), (1, MEDIUM), (3, EASY), (3, MEDIUM), (4, HARD)] = 2
   \<and> tier_calls MEDIUM [(1, EASY), (1, MEDIUM), (3, EASY), (3, MEDIUM), (4, HARD)] = 2
   \<and> tier_calls HARD [(1, EASY), (1, MEDIUM), (3, EASY), (3, MEDIUM), (4, HARD)] = 1"
proof (intro conjI)
  show "generate_comprehensive_qa reliable_env [] four_slides 6 None
      = Inr ([\<lparr>qa_slide_number = 1, qa_slide_title = ''Slide'',
                qa_questions = [sample_question, sample_question]\<rparr>,
              \<lparr>qa_slide_number = 3, qa_slide_title = ''Slide'',
                qa_questions = [sample_question, sample_question]\<rparr>,
              \<lparr>qa_slide_number = 4, qa_slide_title = ''Slide'',
                qa_questions = [sample_question]\<rparr>],
             [(1, EASY), (1, MEDIUM), (3, EASY), (3, MEDIUM), (4, HARD)])"
    by code_simp
qed (code_simp+)


lemma reliable_env_succeeds: "every_call_succeeds reliable_env"
proof -
  let ?reply = "''Here is the question: '' @ sample_json @ '' Good luck!''"
  have x: "extract_json_from_response ?reply = Some sample_json" by code_simp
  have ne: "sample_json \<noteq> []" by code_simp
  have j: "json_loads reliable_env sample_json = Inr (JObject sample_payload)"
    by (simp add: reliable_env_def sample_env_def)
  have f: "set required_fields \<subseteq> set (map fst sample_payload)"
    "''keywords'' \<notin> set (map fst sample_payload)"
    by (simp_all add: required_fields_def sample_payload_def)
  have p: "parse_response reliable_env ?reply
      = Inr (Some (JObject (sample_payload @ [(''keywords'', JArray [])])))"
    using parse_response_default_keywords [OF x ne j f] .
  have "generate_single_question reliable_env n s d = Inr (Some sample_question)" for n s d
    using p
    by (simp add: generate_single_question_def generate_single_question_body_def
        reliable_env_def sample_env_def sample_reply_def sample_payload_def)
  then show ?thesis by (simp add: every_call_succeeds_def)
qed

theorem default_run_allocation_witness:
  "\<exists>sets. generate_comprehensive_qa reliable_env [] four_slides 6 None
            = Inr (sets, [(1, EASY), (1, MEDIUM), (3, EASY), (3, MEDIUM), (4, HARD)])
          \<and> map qa_slide_number sets = [1, 3, 4]
          \<and> map (\<lambda>qa. length (qa_questions qa)) sets = [2, 2, 1]"
proof -
  have f: "filter has_sufficient_content four_slides
      = [mk_slide 1 [''a'', ''b''], mk_slide 3 [''a'', ''b'', ''c''], mk_slide 4 [''a'', ''b'']]"
    by (simp add: four_slides_def has_sufficient_content_def mk_slide_def)
  have n: "slide_number (mk_slide k b) = k" for k b by (simp add: mk_slide_def)
  show ?thesis
    using default_run_allocation [of four_slides "mk_slide 1 [''a'', ''b'']"
        "mk_slide 3 [''a'', ''b'', ''c'']" "mk_slide 4 [''a'', ''b'']" reliable_env]
      f reliable_env_succeeds by (simp add: n)
qed

theorem tier_pool_invariant_witness:
  "(\<forall>t. 0 \<le> fst (snd (distribute_step EASY ((\<lambda>d. 0),
            calculate_difficulty_distribution 6 None, 2))) t)
   \<and> fst (distribute_difficulty_for_slide 2 (calculate_difficulty_distribution 6 None)) EASY
       = min 1 (min (calculate_difficulty_distribution 6 None EASY) 2)
   \<and> (\<forall>t. 0 \<le> snd (distribute_difficulty_for_slide 2
                      (calculate_difficulty_distribution 6 None)) t)
   \<and> (\<exists>sets. generate_comprehensive_qa reliable_env [] four_slides 6 None
                = Inr (sets, plan_calls (run_plan four_slides 6 None)))
   \<and> (\<forall>t. tier_calls t (plan_calls (run_plan four_slides 6 None))
            \<le> calculate_difficulty_distribution 6 None t)
   \<and> (\<forall>t. 0 \<le> calculate_difficulty_distribution 6 None t)"
proof -
  let ?pool = "calculate_difficulty_distribution 6 None"
  have r: "0 \<le> default_ratio EASY" "0 \<le> default_ratio MEDIUM" "0 \<le> default_ratio HARD"
    "sums_to_one default_ratio"
    by code_simp+
  have "0 \<le> ratio_or_default None t" for t
    using r(1-3) by (cases t) (simp_all add: ratio_or_default_def)
  then have i: "(0::int) \<le> 6 \<and> (6::int) < 2 ^ 48 \<and> (\<forall>t. 0 \<le> ratio_or_default None t)
        \<and> sums_to_one (ratio_or_default None)"
    using r(4) by (simp add: ratio_or_default_def)
  have "?pool t = 2" for t by (cases t) (simp_all add: default_pool)
  then have p: "\<forall>t. 0 \<le> ?pool t" by simp
  have d: "distribute_difficulty_for_slide 2 ?pool
      = (fst (distribute_difficulty_for_slide 2 ?pool), snd (distribute_difficulty_for_slide 2 ?pool))"
    by simp
  have q: "(0::int) \<le> 2" by simp
  show ?thesis
    using tier_pool_invariant [where pool = ?pool and d = EASY and ?alloc0.0 = "\<lambda>d. 0"
        and qc = 2 and alloc = "fst (distribute_difficulty_for_slide 2 ?pool)"
        and pool' = "snd (distribute_difficulty_for_slide 2 ?pool)" and total_qs = 6
        and ratio = None and slides = four_slides and env = reliable_env]
      p d q i by blast
qed

section \<open>Learning trends\<close>

lemma groups_of_five_Nil [simp]: "groups_of_five [] = []"
  by (simp add: groups_of_five_def)

lemma groups_count:
  assumes "0 < (n::nat)"
  shows "(n + 4) div 5 = Suc ((n - 5 + 4) div 5)"
proof (cases "n < 5")
  case True
  with assms have "(n + 4) div 5 = 1"
    by (intro div_nat_eqI) simp_all
  moreover from True have "(n - 5 + 4) div 5 = 0" by simp
  ultimately show ?thesis by simp
next
  case False
  then have "n + 4 = (n - 5 + 4) + 5" by simp
  then have "(n + 4) div 5 = ((n - 5 + 4) + 5) div 5" by simp
  also have "\<dots> = Suc ((n - 5 + 4) div 5)" by (simp only: div_add_self2 Suc_eq_plus1)
  finally show ?thesis .
qed

lemma groups_of_five_unfold:
  assumes "xs \<noteq> []"
  shows "groups_of_five xs = take 5 xs # groups_of_five (drop 5 xs)"
proof -
  from assms have "0 < length xs" by simp
  then have "(length xs + 4) div 5 = Suc ((length xs - 5 + 4) div 5)" by (rule groups_count)
  then obtain m where m: "(length xs + 4) div 5 = Suc m" "(length xs - 5 + 4) div 5 = m"
    by blast
  have "map (\<lambda>k. take 5 (drop (5 * k) xs)) [0 ..< Suc m]
      = take 5 xs # map (\<lambda>k. take 5 (drop (5 * k) (drop 5 xs))) [0 ..< m]"
    by (simp only: map_upt_Suc drop_drop mult_Suc_right add.commute [of 5] mult_0_right drop_0)
  then show ?thesis by (simp add: groups_of_five_def m)
qed



lemma correct_rates_loop_groups:
  "correct_rates_loop xs = map batch_rate (filter (\<lambda>g. 3 \<le> length g) (groups_of_five xs))"
proof (induction xs rule: correct_rates_loop.induct)
  case 1
  then show ?case by simp
next
  case (2 r rs)
  have "groups_of_five (r # rs) = take 5 (r # rs) # groups_of_five (drop 5 (r # rs))"
    by (rule groups_of_five_unfold) simp
  with 2 show ?case by (simp add: Let_def del: take_Cons_numeral drop_Cons_numeral)
qed


lemma sum_list_ones: "sum_list (map (\<lambda>r. 1::nat) xs) = length xs"
  by (induction xs) simp_all

lemma batch_rate_percent: "batch_rate g = percent_correct g"
  unfolding batch_rate_def percent_correct_def correct_count_def Let_def sum_list_ones by simp

lemma newest_first_take:
  assumes "sorted (rev (map submitted_at rs))"
    and "a \<in> set (take n rs)" and "b \<in> set (drop n rs)"
  shows "submitted_at b \<le> submitted_at a"
proof -
  have "sorted (rev (map submitted_at (take n rs @ drop n rs)))"
    using assms(1) by (simp only: append_take_drop_id)
  then have "sorted (rev (map submitted_at (drop n rs)) @ rev (map submitted_at (take n rs)))"
    by (simp only: map_append rev_append)
  then have "\<forall>x \<in> set (rev (map submitted_at (drop n rs))).
      \<forall>y \<in> set (rev (map submitted_at (take n rs))). x \<le> y"
    by (simp only: sorted_append) blast
  moreover have "submitted_at b \<in> set (rev (map submitted_at (drop n rs)))"
    using assms(3) by (simp only: set_rev set_map) (rule imageI)
  moreover have "submitted_at a \<in> set (rev (map submitted_at (take n rs)))"
    using assms(2) by (simp only: set_rev set_map) (rule imageI)
  ultimately show ?thesis by blast
qed

text \<open>
  C6. With fewer than 5 responses the analysis returns the insufficient-data result and
  no trend. Otherwise it takes the first 20 responses, which are the most recent ones
  when the responses come newest first, sorts them ascending by submission time, forms
  consecutive groups of five, keeps the groups with at least three members, takes the
  percentage of correct responses of each, and reports "Improving" iff there are at
  least two rates and the last exceeds the first by more than 10, "Declining" iff there
  are at least two and the last is more than 10 below the first, and "Stable" otherwise;
  so 40 then 80 is "Improving", 80 then 40 is "Declining", 60 then 55 is "Stable".
\<close>

theorem learning_trend_classification:
  "(length rs < 5 \<longrightarrow> analyze_learning_trends rs = InsufficientData)
   \<and> (5 \<le> length rs \<longrightarrow>
        analyze_learning_trends rs = Trends (performance_trend (group_rates rs)) (group_rates rs))
   \<and> sorted (map submitted_at (sort_key submitted_at (take 20 rs)))
   \<and> (sorted (rev (map submitted_at rs)) \<longrightarrow>
        (\<forall>a \<in> set (take 20 rs). \<forall>b \<in> set (drop 20 rs). submitted_at b \<le> submitted_at a))
   \<and> batch_rate g = percent_correct g
   \<and> (performance_trend rates = ''Improving''
        \<longleftrightarrow> 2 \<le> length rates \<and> last rates > hd rates + 10)
   \<and> (performance_trend rates = ''Declining''
        \<longleftrightarrow> 2 \<le> length rates \<and> last rates < hd rates - 10)
   \<and> (performance_trend rates = ''Stable''
        \<longleftrightarrow> \<not> (2 \<le> length rates \<and> (last rates > hd rates + 10 \<or> last rates < hd rates - 10)))
   \<and> (2 \<le> length rates \<and> hd rates = 40 \<and> last rates = 80 \<longrightarrow> performance_trend rates = ''Improving'')
   \<and> (2 \<le> length rates \<and> hd rates = 80 \<and> last rates = 40 \<longrightarrow> performance_trend rates = ''Declining'')
   \<and> (2 \<le> length rates \<and> hd rates = 60 \<and> last rates = 55 \<longrightarrow> performance_trend rates = ''Stable'')"
proof (intro conjI impI)
  show "analyze_learning_trends rs = InsufficientData" if "length rs < 5"
    using that by (simp add: analyze_learning_trends_def)
  show "analyze_learning_trends rs = Trends (performance_trend (group_rates rs)) (group_rates rs)"
    if "5 \<le> length rs"
    using that by (simp add: analyze_learning_trends_def group_rates_def correct_rates_loop_groups Let_def)
  show "sorted (map submitted_at (sort_key submitted_at (take 20 rs)))"
    by (rule sorted_sort_key)
  show "\<forall>a \<in> set (take 20 rs). \<forall>b \<in> set (drop 20 rs). submitted_at b \<le> submitted_at a"
    if "sorted (rev (map submitted_at rs))"
    using newest_first_take [OF that] by blast
  show "batch_rate g = percent_correct g" by (rule batch_rate_percent)
  show "performance_trend rates = ''Improving''
        \<longleftrightarrow> 2 \<le> length rates \<and> last rates > hd rates + 10"
    by (simp add: performance_trend_def)
  show "performance_trend rates = ''Declining''
        \<longleftrightarrow> 2 \<le> length rates \<and> last rates < hd rates - 10"
    by (auto simp: performance_trend_def)
  show "performance_trend rates = ''Stable''
        \<longleftrightarrow> \<not> (2 \<le> length rates \<and> (last rates > hd rates + 10 \<or> last rates < hd rates - 10))"
    by (auto simp: performance_trend_def)
  show "performance_trend rates = ''Improving''" if "2 \<le> length rates \<and> hd rates = 40 \<and> last rates = 80"
    using that by (simp add: performance_trend_def)
  show "performance_trend rates = ''Declining''" if "2 \<le> length rates \<and> hd rates = 80 \<and> last rates = 40"
    using that by (simp add: performance_trend_def)
  show "performance_trend rates = ''Stable''" if "2 \<le> length rates \<and> hd rates = 60 \<and> last rates = 55"
    using that by (simp add: performance_trend_def)
qed



theorem learning_trend_classification_witness:
  "analyze_learning_trends improving_history = Trends ''Improving'' [40, 40, 60, 80]
   \<and> analyze_learning_trends (rev improving_history) = Trends ''Improving'' [40, 40, 60, 80]
   \<and> analyze_learning_trends (take 4 improving_history) = InsufficientData
   \<and> analyze_learning_trends (take 8 improving_history) = Trends ''Improving'' [60, 100]
   \<and> analyze_learning_trends (take 7 improving_history) = Trends ''Stable'' [60]
   \<and> performance_trend [80, 60, 40] = ''Declining''
   \<and> performance_trend [60, 55] = ''Stable''
   \<and> submitted_at (last (answers 1 (replicate 22 True)))
        \<le> submitted_at (hd (answers 1 (replicate 22 True)))"
proof -
  note t = learning_trend_classification
  have l: "length improving_history = 20" by code_simp
  have g: "group_rates improving_history = [40, 40, 60, 80]" by code_simp
  have gr: "group_rates (rev improving_history) = [40, 40, 60, 80]" by code_simp
  have g8: "group_rates (take 8 improving_history) = [60, 100]" by code_simp
  have g7: "group_rates (take 7 improving_history) = [60]" by code_simp
  have i: "performance_trend [40, 40, 60, 80] = ''Improving''"
    using t [where rates = "[40, 40, 60, 80]"] by simp
  have s8: "performance_trend [60, 100] = ''Improving''"
    using t [where rates = "[60, 100]"] by simp
  have s7: "performance_trend [60] = ''Stable''"
    using t [where rates = "[60]"] by simp
  have 1: "analyze_learning_trends improving_history = Trends ''Improving'' [40, 40, 60, 80]"
    using t [where rs = improving_history] l g i by simp
  have 2: "analyze_learning_trends (rev improving_history) = Trends ''Improving'' [40, 40, 60, 80]"
    using t [where rs = "rev improving_history"] l gr i by simp
  have 3: "analyze_learning_trends (take 4 improving_history) = InsufficientData"
    using t [where rs = "take 4 improving_history"] l by simp
  have 4: "analyze_learning_trends (take 8 improving_history) = Trends ''Improving'' [60, 100]"
    using t [where rs = "take 8 improving_history"] l g8 s8 by simp
  have 5: "analyze_learning_trends (take 7 improving_history) = Trends ''Stable'' [60]"
    using t [where rs = "take 7 improving_history"] l g7 s7 by simp
  have 6: "performance_trend [80, 60, 40] = ''Declining''"
    using t [where rates = "[80, 60, 40]"] by simp
  have 7: "performance_trend [60, 55] = ''Stable''"
    using t [where rates = "[60, 55]"] by simp
  have o: "sorted (rev (map submitted_at (answers 1 (replicate 22 True))))" by code_simp
  have m: "hd (answers 1 (replicate 22 True)) \<in> set (take 20 (answers 1 (replicate 22 True)))"
    "last (answers 1 (replicate 22 True)) \<in> set (drop 20 (answers 1 (replicate 22 True)))"
    by code_simp+
  have 8: "submitted_at (last (answers 1 (replicate 22 True)))
        \<le> submitted_at (hd (answers 1 (replicate 22 True)))"
    using t [where rs = "answers 1 (replicate 22 True)"] o m by blast
  from 1 2 3 4 5 6 7 8 show ?thesis by blast
qed

section \<open>The extraction ladder\<close>

lemma py_in_find_at: "py_in sub s \<longleftrightarrow> find_at sub s \<noteq> None"
  by (induction s) auto

lemma find_at_bound: "find_at sub s = Some i \<Longrightarrow> i + length sub \<le> length s"
proof (induction s arbitrary: i)
  case Nil
  then show ?case by (simp split: if_splits)
next
  case (Cons c cs)
  have sw: "startswith t p \<Longrightarrow> length p \<le> length t" for t p :: string
    by (induction t p rule: startswith.induct) simp_all
  show ?case
  proof (cases "startswith (c # cs) sub")
    case True
    with Cons.prems sw [OF True] show ?thesis by simp
  next
    case False
    with Cons.prems obtain j where "find_at sub cs = Some j" "i = Suc j" by auto
    with Cons.IH show ?thesis by simp
  qed
qed

lemma py_find_nat:
  "k \<le> length s \<Longrightarrow>
   py_find s sub (int k) = (case find_at sub (drop k s) of None \<Rightarrow> - 1 | Some n \<Rightarrow> int k + int n)"
  by (simp add: py_find_def split: option.split)

lemma py_find_0:
  "py_find s sub 0 = (case find_at sub s of None \<Rightarrow> - 1 | Some n \<Rightarrow> int n)"
  by (simp add: py_find_def split: option.split)

lemma py_slice_nat:
  "a \<le> length s \<Longrightarrow> py_slice s (int a) (int b) = take (b - a) (drop a s)"
  by (auto simp: py_slice_def py_index_def min_def)

lemma fence_block:
  assumes "find_at opener reply = Some i"
  shows "py_find reply ''```'' (py_find reply opener 0 + int (length opener)) \<noteq> - 1
           \<longleftrightarrow> fenced_interior opener reply \<noteq> None"
    and "fenced_interior opener reply = Some body \<Longrightarrow>
         py_slice reply (py_find reply opener 0 + int (length opener))
           (py_find reply ''```'' (py_find reply opener 0 + int (length opener))) = body"
proof -
  let ?k = "i + length opener"
  have k: "?k \<le> length reply" using find_at_bound [OF assms] .
  have s: "py_find reply opener 0 + int (length opener) = int ?k"
    using assms by (simp add: py_find_0)
  show "py_find reply ''```'' (py_find reply opener 0 + int (length opener)) \<noteq> - 1
           \<longleftrightarrow> fenced_interior opener reply \<noteq> None"
    unfolding s using assms py_find_nat [OF k, of "''```''"]
    by (simp add: fenced_interior_def split: option.split)
  show "py_slice reply (py_find reply opener 0 + int (length opener))
           (py_find reply ''```'' (py_find reply opener 0 + int (length opener))) = body"
    if "fenced_interior opener reply = Some body"
  proof -
    from that assms obtain n where n: "find_at ''```'' (drop ?k reply) = Some n"
      and b: "body = take n (drop ?k reply)"
      by (auto simp: fenced_interior_def split: option.splits)
    have "py_find reply ''```'' (int ?k) = int (?k + n)"
      using py_find_nat [OF k, of "''```''"] n by simp
    then show ?thesis unfolding s using py_slice_nat [OF k, of "?k + n"] b by simp
  qed
qed


lemma extract_strategy1:
  "extract_json_from_response reply
     = (case strategy1 reply of Some x \<Rightarrow> Some x | None \<Rightarrow> from_pattern2 reply)"
proof (cases "find_at ''```json'' reply")
  case None
  then show ?thesis
    by (simp add: extract_json_from_response_def py_in_find_at strategy1_def fenced_interior_def)
next
  case (Some i)
  note f = fence_block [OF Some]
  have l: "int (length ''```json'') = 7" by simp
  show ?thesis
  proof (cases "fenced_interior ''```json'' reply")
    case None
    with f(1) Some show ?thesis
      unfolding l by (simp add: extract_json_from_response_def py_in_find_at strategy1_def Let_def)
  next
    case (Some body)
    with f(1) f(2) [OF Some] \<open>find_at ''```json'' reply = Some i\<close> show ?thesis
      unfolding l by (simp add: extract_json_from_response_def py_in_find_at strategy1_def Let_def)
  qed
qed

lemma extract_strategy2:
  "from_pattern2 reply
     = (case strategy2 reply of Some x \<Rightarrow> Some x | None \<Rightarrow> from_pattern3 reply)"
proof (cases "find_at ''```'' reply")
  case None
  then show ?thesis
    by (simp add: from_pattern2_def py_in_find_at strategy2_def fenced_interior_def)
next
  case (Some i)
  note f = fence_block [OF Some]
  have l: "int (length ''```'') = 3" by simp
  show ?thesis
  proof (cases "fenced_interior ''```'' reply")
    case None
    with f(1) Some show ?thesis
      unfolding l by (simp add: from_pattern2_def py_in_find_at strategy2_def Let_def)
  next
    case (Some body)
    with f(1) f(2) [OF Some] \<open>find_at ''```'' reply = Some i\<close> show ?thesis
      unfolding l by (simp add: from_pattern2_def py_in_find_at strategy2_def Let_def braced_def)
  qed
qed

lemma extract_strategy4: "from_pattern4 reply = strategy4 reply"
  by (simp add: from_pattern4_def strategy4_def braced_def Let_def)


lemma depth_Nil [simp]: "depth [] = 0"
  by (simp add: depth_def)

lemma depth_Cons:
  "depth (c # cs) = (if c = CHR ''{'' then 1 else if c = CHR ''}'' then - 1 else 0) + depth cs"
  by (simp add: depth_def)

lemma find_map_option: "find P (map f xs) = map_option f (find (\<lambda>x. P (f x)) xs)"
  by (induction xs) simp_all

lemma upt_from_1: "[Suc 0 ..< Suc (Suc n)] = Suc 0 # map Suc [Suc 0 ..< Suc n]"
proof -
  have "map Suc [Suc 0 ..< Suc n] = [Suc (Suc 0) ..< Suc (Suc n)]" by (rule map_Suc_upt)
  moreover have "[Suc 0 ..< Suc (Suc n)] = Suc 0 # [Suc (Suc 0) ..< Suc (Suc n)]"
    by (rule upt_conv_Cons) simp
  ultimately show ?thesis by simp
qed

lemma find_from_1:
  "find P [Suc 0 ..< Suc (Suc n)]
     = (if P (Suc 0) then Some (Suc 0)
        else map_option Suc (find (\<lambda>k. P (Suc k)) [Suc 0 ..< Suc n]))"
  by (simp only: upt_from_1 find.simps find_map_option)

lemma find_upt_ge: "find Q [Suc 0 ..< n] = Some k \<Longrightarrow> Suc 0 \<le> k"
  by (metis find_Some_iff nth_mem set_upt atLeastLessThan_iff)

lemma shift_index:
  "map_option (\<lambda>n. i + (n - Suc 0)) (map_option Suc (find Q [Suc 0 ..< n]))
     = map_option (\<lambda>n. Suc i + (n - Suc 0)) (find Q [Suc 0 ..< n])"
proof (cases "find Q [Suc 0 ..< n]")
  case None
  then show ?thesis by simp
next
  case (Some k)
  with find_upt_ge [OF Some] show ?thesis by simp
qed

lemma find_depth_Cons:
  "find (\<lambda>n. c + depth (take n (x # cs)) = 0) [Suc 0 ..< Suc (Suc (length cs))]
     = (if c + depth [x] = 0 then Some (Suc 0)
        else map_option Suc
               (find (\<lambda>k. (c + depth [x]) + depth (take k cs) = 0) [Suc 0 ..< Suc (length cs)]))"
proof -
  have "depth (take (Suc k) (x # cs)) = depth [x] + depth (take k cs)" for k
    by (simp add: depth_Cons)
  moreover have "depth (take (Suc 0) (x # cs)) = depth [x]" by simp
  ultimately show ?thesis
    by (simp only: find_from_1 add.assoc)
qed

lemma match_brace_find:
  "1 \<le> c \<Longrightarrow>
   match_brace cs c i
     = map_option (\<lambda>n. i + (n - Suc 0))
         (find (\<lambda>n. c + depth (take n cs) = 0) [Suc 0 ..< Suc (length cs)])"
proof (induction cs arbitrary: c i)
  case Nil
  then show ?case by simp
next
  case (Cons x cs)
  note f = find_depth_Cons [of c x cs]
  show ?case
  proof (cases "x = CHR ''{''")
    case True
    then have d: "depth [x] = 1" by (simp add: depth_Cons)
    from Cons.prems have c: "1 \<le> c + 1" "c + 1 \<noteq> 0" by simp_all
    have "match_brace (x # cs) c i = match_brace cs (c + 1) (Suc i)"
      using True by simp
    also have "\<dots> = map_option (\<lambda>n. Suc i + (n - Suc 0))
         (find (\<lambda>n. (c + 1) + depth (take n cs) = 0) [Suc 0 ..< Suc (length cs)])"
      by (rule Cons.IH [OF c(1)])
    also have "\<dots> = map_option (\<lambda>n. i + (n - Suc 0))
         (find (\<lambda>n. c + depth (take n (x # cs)) = 0) [Suc 0 ..< Suc (length (x # cs))])"
      unfolding length_Cons f d using c(2) by (simp only: if_False shift_index)
    finally show ?thesis .
  next
    case False
    show ?thesis
    proof (cases "x = CHR ''}''")
      case True
      then have d: "depth [x] = - 1" by (simp add: depth_Cons)
      show ?thesis
      proof (cases "c - 1 = 0")
        case z: True
        then have "c + - 1 = 0" by simp
        then have "find (\<lambda>n. c + depth (take n (x # cs)) = 0) [Suc 0 ..< Suc (length (x # cs))]
            = Some (Suc 0)"
          unfolding length_Cons f d by simp
        with True z show ?thesis by simp
      next
        case nz: False
        with Cons.prems have c: "1 \<le> c - 1" by simp
        from nz have n: "c + - 1 \<noteq> 0" by simp
        have e: "c + - 1 = c - 1" by simp
        have "match_brace (x # cs) c i = match_brace cs (c - 1) (Suc i)"
          using True nz by simp
        also have "\<dots> = map_option (\<lambda>n. Suc i + (n - Suc 0))
             (find (\<lambda>n. (c - 1) + depth (take n cs) = 0) [Suc 0 ..< Suc (length cs)])"
          by (rule Cons.IH [OF c])
        also have "\<dots> = map_option (\<lambda>n. i + (n - Suc 0))
             (find (\<lambda>n. c + depth (take n (x # cs)) = 0) [Suc 0 ..< Suc (length (x # cs))])"
          unfolding length_Cons f d using n by (simp only: if_False shift_index e)
        finally show ?thesis .
      qed
    next
      case nb: False
      with False have d: "depth [x] = 0" by (simp add: depth_Cons)
      from Cons.prems have n: "c + 0 \<noteq> 0" by simp
      have e: "c + 0 = c" by simp
      have "match_brace (x # cs) c i = match_brace cs c (Suc i)"
        using False nb by simp
      also have "\<dots> = map_option (\<lambda>n. Suc i + (n - Suc 0))
           (find (\<lambda>n. c + depth (take n cs) = 0) [Suc 0 ..< Suc (length cs)])"
        by (rule Cons.IH [OF Cons.prems])
      also have "\<dots> = map_option (\<lambda>n. i + (n - Suc 0))
           (find (\<lambda>n. c + depth (take n (x # cs)) = 0) [Suc 0 ..< Suc (length (x # cs))])"
        unfolding length_Cons f d using n by (simp only: if_False shift_index e)
      finally show ?thesis .
    qed
  qed
qed


lemma startswith_single: "startswith s [c] \<longleftrightarrow> (\<exists>r. s = c # r)"
  by (cases s) auto

lemma find_at_single:
  "find_at [c] s = Some i \<Longrightarrow> c \<notin> set (take i s) \<and> drop i s = c # drop (Suc i) s"
proof (induction s arbitrary: i)
  case Nil
  then show ?case by simp
next
  case (Cons x xs)
  show ?case
  proof (cases "x = c")
    case True
    with Cons.prems show ?thesis by simp
  next
    case False
    with Cons.prems obtain j where j: "find_at [c] xs = Some j" "i = Suc j"
      by (auto simp: startswith_single)
    with Cons.IH [OF j(1)] False show ?thesis by simp
  qed
qed

lemma extract_strategy3:
  "from_pattern3 reply
     = (case strategy3 reply of Some x \<Rightarrow> Some x | None \<Rightarrow> from_pattern4 reply)"
proof (cases "find_at ''{'' reply")
  case None
  then show ?thesis
    by (simp add: from_pattern3_def strategy3_def py_find_0)
next
  case (Some i)
  let ?rest = "drop (Suc i) reply"
  let ?R = "find (\<lambda>k. (0 + depth [CHR ''{'']) + depth (take k ?rest) = 0)
              [Suc 0 ..< Suc (length ?rest)]"
  have d: "drop i reply = CHR ''{'' # ?rest" using find_at_single [OF Some] by simp
  have i: "i < length reply" using find_at_bound [OF Some] by simp
  then have l: "length reply - i = Suc (length ?rest)" by simp
  have one: "0 + depth [CHR ''{''] = 1" by (simp add: depth_Cons)
  have s3: "find (\<lambda>n. depth (take n (drop i reply)) = 0) [1 ..< Suc (length reply - i)]
              = map_option Suc ?R"
  proof -
    have "find (\<lambda>n. 0 + depth (take n (CHR ''{'' # ?rest)) = 0)
              [Suc 0 ..< Suc (Suc (length ?rest))] = map_option Suc ?R"
      unfolding find_depth_Cons one by simp
    then show ?thesis unfolding d l by simp
  qed
  have mb: "match_brace (drop i reply) 0 i = map_option (\<lambda>n. Suc i + (n - Suc 0)) ?R"
  proof -
    have "match_brace (drop i reply) 0 i = match_brace ?rest 1 (Suc i)"
      unfolding d by simp
    also have "\<dots> = map_option (\<lambda>n. Suc i + (n - Suc 0))
        (find (\<lambda>n. 1 + depth (take n ?rest) = 0) [Suc 0 ..< Suc (length ?rest)])"
      by (rule match_brace_find) simp
    finally show ?thesis unfolding one .
  qed
  have pf: "py_find reply ''{'' 0 = int i" using Some by (simp add: py_find_0)
  show ?thesis
  proof (cases ?R)
    case None
    with s3 mb pf show ?thesis
      by (simp add: from_pattern3_def strategy3_def Some)
  next
    case (Some m)
    then have m: "Suc 0 \<le> m" by (rule find_upt_ge)
    have "py_slice reply (int i) (int (Suc i + (m - Suc 0)) + 1) = take (Suc m) (drop i reply)"
    proof -
      have "int (Suc i + (m - Suc 0)) + 1 = int (Suc (i + m))" using m by simp
      moreover have "i \<le> length reply" using i by simp
      ultimately show ?thesis using py_slice_nat [of i reply "Suc (i + m)"] by (simp add: ac_simps)
    qed
    with s3 mb pf Some \<open>find_at ''{'' reply = Some i\<close> show ?thesis
      by (simp add: from_pattern3_def strategy3_def)
  qed
qed

lemma first_match_single: "first_match [x] = x"
  by (cases x) simp_all

lemma extract_is_ladder: "extract_json_from_response reply = ladder reply"
  by (simp add: first_match_single ladder_def extract_strategy1 extract_strategy2 extract_strategy3 extract_strategy4
      split: option.split)


lemma find_upt_least:
  assumes "find Q [Suc 0 ..< N] = Some k"
  shows "Q k" and "Suc 0 \<le> k" and "k < N" and "\<And>j. Suc 0 \<le> j \<Longrightarrow> j < k \<Longrightarrow> \<not> Q j"
proof -
  from assms obtain i where i: "i < length [Suc 0 ..< N]" "Q ([Suc 0 ..< N] ! i)"
    "k = [Suc 0 ..< N] ! i" "\<forall>j<i. \<not> Q ([Suc 0 ..< N] ! j)"
    unfolding find_Some_iff by blast
  from i(1) have n: "[Suc 0 ..< N] ! i = Suc 0 + i" by (intro nth_upt) simp
  from i n show "Q k" "Suc 0 \<le> k" "k < N" by simp_all
  show "\<not> Q j" if "Suc 0 \<le> j" "j < k" for j
  proof -
    from that i(3) n have "j - Suc 0 < i" by simp
    with i(4) have "\<not> Q ([Suc 0 ..< N] ! (j - Suc 0))" by blast
    moreover from \<open>j - Suc 0 < i\<close> i(1) have "[Suc 0 ..< N] ! (j - Suc 0) = Suc 0 + (j - Suc 0)"
      by (intro nth_upt) simp
    ultimately show ?thesis using that(1) by simp
  qed
qed

lemma depth_append: "depth (a @ b) = depth a + depth b"
  by (simp add: depth_def)

lemma depth_single: "- 1 \<le> depth [c] \<and> depth [c] \<le> 1 \<and> (depth [c] < 0 \<longrightarrow> c = CHR ''}'')"
  by (simp add: depth_Cons)

lemma depth_take_Suc: "m < length s \<Longrightarrow> depth (take (Suc m) s) = depth (take m s) + depth [s ! m]"
  by (simp add: take_Suc_conv_app_nth depth_append)

lemma depth_positive_prefixes:
  assumes "\<And>j. Suc 0 \<le> j \<Longrightarrow> j < n \<Longrightarrow> depth (take j s) \<noteq> 0"
    and "depth (take (Suc 0) s) = 1" and "n \<le> length s"
  shows "Suc 0 \<le> m \<Longrightarrow> m < n \<Longrightarrow> 0 < depth (take m s)"
proof (induction m)
  case 0
  then show ?case by simp
next
  case (Suc m)
  show ?case
  proof (cases "m = 0")
    case True
    with assms(2) show ?thesis by simp
  next
    case False
    with Suc have p: "0 < depth (take m s)" by simp
    from Suc.prems assms(3) have "m < length s" by simp
    then have "depth (take (Suc m) s) = depth (take m s) + depth [s ! m]"
      by (rule depth_take_Suc)
    with p depth_single [of "s ! m"] have "0 \<le> depth (take (Suc m) s)" by linarith
    moreover have "depth (take (Suc m) s) \<noteq> 0" using assms(1) Suc.prems by simp
    ultimately show ?thesis by linarith
  qed
qed

lemma strategy3_balanced:
  assumes "strategy3 reply = Some x"
  shows "\<exists>pre post. reply = pre @ x @ post \<and> CHR ''{'' \<notin> set pre
           \<and> startswith x ''{'' \<and> endswith x ''}'' \<and> depth x = 0
           \<and> (\<forall>m. 0 < m \<and> m < length x \<longrightarrow> 0 < depth (take m x))"
proof -
  from assms obtain i n where i: "find_at ''{'' reply = Some i"
    and f: "find (\<lambda>n. depth (take n (drop i reply)) = 0) [Suc 0 ..< Suc (length reply - i)] = Some n"
    and x: "x = take n (drop i reply)"
    by (auto simp: strategy3_def split: option.splits)
  let ?s = "drop i reply"
  note l = find_upt_least [OF f]
  have d: "?s = CHR ''{'' # drop (Suc i) reply" and pre: "CHR ''{'' \<notin> set (take i reply)"
    using find_at_single [OF i] by simp_all
  have n: "n \<le> length ?s" using l(3) by simp
  then have len: "length x = n" using x by simp
  have one: "depth (take (Suc 0) ?s) = 1" by (subst d) (simp add: depth_Cons)
  have pos: "0 < depth (take m ?s)" if "Suc 0 \<le> m" "m < n" for m
    using depth_positive_prefixes [of n ?s m] l(4) one n that by blast
  have n2: "Suc 0 < n"
  proof (rule ccontr)
    assume "\<not> Suc 0 < n"
    with l(2) have "n = Suc 0" by simp
    with l(1) one show False by simp
  qed
  have split: "reply = take i reply @ x @ drop n ?s"
    unfolding x by (simp only: append_take_drop_id)
  have st: "startswith x ''{''"
    using n2 unfolding x by (subst d) (cases n, simp_all)
  have dx: "depth x = 0" using l(1) x by simp
  have en: "endswith x ''}''"
  proof -
    obtain k where k: "n = Suc k" using n2 by (cases n) simp_all
    with n have kl: "k < length ?s" by simp
    have "depth (take (Suc k) ?s) = depth (take k ?s) + depth [?s ! k]"
      using kl by (rule depth_take_Suc)
    moreover have "0 < depth (take k ?s)" using pos [of k] k n2 by simp
    ultimately have "depth [?s ! k] < 0" using l(1) k by simp
    then have "?s ! k = CHR ''}''" using depth_single by blast
    moreover have "x = take k ?s @ [?s ! k]"
      unfolding x k using kl by (rule take_Suc_conv_app_nth)
    ultimately show ?thesis by (simp add: endswith_def)
  qed
  have pr: "\<forall>m. 0 < m \<and> m < length x \<longrightarrow> 0 < depth (take m x)"
  proof (intro allI impI)
    fix m assume m: "0 < m \<and> m < length x"
    with len have mn: "m < n" by simp
    then have "take m (take n ?s) = take m ?s" by (simp add: min_def)
    then have "take m x = take m ?s" by (simp only: x)
    with pos [of m] m mn show "0 < depth (take m x)" by simp
  qed
  from split pre st en dx pr show ?thesis by blast
qed


lemma startswith_take: "startswith t p \<Longrightarrow> take (length p) t = p"
  by (induction t p rule: startswith.induct) simp_all

lemma startswith_length: "startswith t p \<Longrightarrow> length p \<le> length t"
  by (induction t p rule: startswith.induct) simp_all

lemma find_at_first:
  "find_at sub s = Some i \<Longrightarrow>
     startswith (drop i s) sub \<and> (\<forall>j<i. \<not> startswith (drop j s) sub)"
proof (induction s arbitrary: i)
  case Nil
  then show ?case by (simp split: if_splits)
next
  case (Cons c cs)
  show ?case
  proof (cases "startswith (c # cs) sub")
    case True
    with Cons.prems show ?thesis by simp
  next
    case False
    with Cons.prems obtain k where k: "find_at sub cs = Some k" "i = Suc k" by auto
    from Cons.IH [OF k(1)] False k(2) show ?thesis
      by (auto simp: less_Suc_eq_0_disj)
  qed
qed

lemma py_in_drop: "py_in sub s \<Longrightarrow> \<exists>j. j + length sub \<le> length s \<and> startswith (drop j s) sub"
proof (induction s)
  case Nil
  then show ?case by simp
next
  case (Cons c cs)
  show ?case
  proof (cases "startswith (c # cs) sub")
    case True
    have "length sub \<le> length (c # cs)"
      using True by (rule startswith_length)
    with True show ?thesis by (intro exI [of _ 0]) simp
  next
    case False
    with Cons obtain j where "j + length sub \<le> length cs" "startswith (drop j cs) sub" by auto
    then show ?thesis by (intro exI [of _ "Suc j"]) simp
  qed
qed

lemma startswith_drop_take:
  "startswith (drop j (take n s)) p \<Longrightarrow> j + length p \<le> n \<Longrightarrow> startswith (drop j s) p"
proof (induction "drop j s" p arbitrary: j rule: startswith.induct)
  case (1 p)
  then show ?case by simp
next
  case (2 p ps)
  then show ?case by simp
next
  case (3 c cs p ps)
  from "3.hyps"(2) have d: "drop j s = c # drop (Suc j) s" "cs = drop (Suc j) s"
    by (metis drop_Suc list.sel(3) tl_drop)+
  then have j: "j < length s" by (metis drop_eq_Nil list.distinct(1) not_le)
  from "3.prems"(2) have jn: "j < n" by simp
  with j have "drop j (take n s) = c # drop (Suc j) (take n s)"
    by (metis Cons_nth_drop_Suc d(1) length_take list.inject min_less_iff_conj nth_take)
  with "3.prems" have "c = p" "startswith (drop (Suc j) (take n s)) ps" by simp_all
  with "3.hyps"(1) [of "Suc j"] d "3.prems"(2) show ?case by simp
qed

lemma fenced_interior_decomp:
  assumes "fenced_interior opener reply = Some body"
  shows "\<exists>pre post. reply = pre @ opener @ body @ ''```'' @ post \<and> \<not> py_in ''```'' body"
proof -
  from assms obtain i n where i: "find_at opener reply = Some i"
    and n: "find_at ''```'' (drop (i + length opener) reply) = Some n"
    and b: "body = take n (drop (i + length opener) reply)"
    by (auto simp: fenced_interior_def split: option.splits)
  let ?rest = "drop (i + length opener) reply"
  have 1: "take (length opener) (drop i reply) = opener"
    using find_at_first [OF i] startswith_take by blast
  have 2: "take 3 (drop n ?rest) = ''```''"
    using find_at_first [OF n] startswith_take [of "drop n ?rest" "''```''"]
    by (simp add: numeral_3_eq_3)
  have r: "?rest = drop (length opener) (drop i reply)"
    by (simp only: drop_drop add.commute)
  have "reply = take i reply @ take (length opener) (drop i reply) @ ?rest"
    unfolding r by (simp only: append_take_drop_id)
  moreover have "?rest = take n ?rest @ take 3 (drop n ?rest) @ drop 3 (drop n ?rest)"
    by (simp only: append_take_drop_id)
  ultimately have d: "reply = take i reply @ opener @ body @ ''```'' @ drop 3 (drop n ?rest)"
    unfolding 1 2 b by simp
  have "\<not> py_in ''```'' body"
  proof
    assume "py_in ''```'' body"
    then obtain j where j: "j + length ''```'' \<le> length body" "startswith (drop j body) ''```''"
      using py_in_drop by blast
    from j(1) b have jn: "j + length ''```'' \<le> n" by simp
    with j(2) have "startswith (drop j ?rest) ''```''"
      unfolding b by (rule startswith_drop_take)
    moreover from jn have "j < n" by simp
    ultimately show False using find_at_first [OF n] by blast
  qed
  with d show ?thesis by blast
qed


text \<open>
  C1. The extraction tries the four strategies in this order and returns the payload of
  the first that yields one: a later strategy is used only when every earlier one yields
  nothing, and when none yields a payload the extraction returns nothing and parsing
  fails. The interior of a fenced block lies between its opening marker and a fence
  marker and contains no fence marker. The span of strategy 3 starts at the first
  opening brace of the reply, ends with a closing brace, has as many closing as opening
  braces, and every proper non-empty prefix of it has more opening than closing braces:
  it ends at the matching brace and not at an inner one, as for a reply with
  \<open>"use {x} notation"\<close> inside the payload.
\<close>

theorem extraction_ladder:
  "extract_json_from_response reply = ladder reply
   \<and> (strategy1 reply = Some x \<longrightarrow> extract_json_from_response reply = Some x)
   \<and> (strategy1 reply = None \<and> strategy2 reply = Some x \<longrightarrow>
        extract_json_from_response reply = Some x)
   \<and> (strategy1 reply = None \<and> strategy2 reply = None \<and> strategy3 reply = Some x \<longrightarrow>
        extract_json_from_response reply = Some x)
   \<and> (strategy1 reply = None \<and> strategy2 reply = None \<and> strategy3 reply = None
        \<and> strategy4 reply = Some x \<longrightarrow> extract_json_from_response reply = Some x)
   \<and> (strategy1 reply = None \<and> strategy2 reply = None \<and> strategy3 reply = None
        \<and> strategy4 reply = None \<longrightarrow>
        extract_json_from_response reply = None \<and> parse_response env reply = Inr None)
   \<and> (fenced_interior opener reply = Some body \<longrightarrow>
        (\<exists>pre post. reply = pre @ opener @ body @ ''```'' @ post \<and> \<not> py_in ''```'' body))
   \<and> (strategy3 reply = Some x \<longrightarrow>
        (\<exists>pre post. reply = pre @ x @ post \<and> CHR ''{'' \<notin> set pre
           \<and> startswith x ''{'' \<and> endswith x ''}'' \<and> depth x = 0
           \<and> (\<forall>m. 0 < m \<and> m < length x \<longrightarrow> 0 < depth (take m x))))
   \<and> extract_json_from_response (''Here is the question: '' @ sample_json @ '' Good luck!'')
        = Some sample_json"
proof (intro conjI impI)
  show "extract_json_from_response reply = ladder reply" by (rule extract_is_ladder)
  show "extract_json_from_response reply = Some x" if "strategy1 reply = Some x"
    using that by (simp add: extract_is_ladder ladder_def)
  show "extract_json_from_response reply = Some x"
    if "strategy1 reply = None \<and> strategy2 reply = Some x"
    using that by (simp add: extract_is_ladder ladder_def)
  show "extract_json_from_response reply = Some x"
    if "strategy1 reply = None \<and> strategy2 reply = None \<and> strategy3 reply = Some x"
    using that by (simp add: extract_is_ladder ladder_def)
  show "extract_json_from_response reply = Some x"
    if "strategy1 reply = None \<and> strategy2 reply = None \<and> strategy3 reply = None
        \<and> strategy4 reply = Some x"
    using that by (simp add: extract_is_ladder ladder_def)
  assume n: "strategy1 reply = None \<and> strategy2 reply = None \<and> strategy3 reply = None
        \<and> strategy4 reply = None"
  then show e: "extract_json_from_response reply = None"
    by (simp add: extract_is_ladder ladder_def)
  then show "parse_response env reply = Inr None"
    by (simp add: parse_response_no_payload)
next
  show "\<exists>pre post. reply = pre @ opener @ body @ ''```'' @ post \<and> \<not> py_in ''```'' body"
    if "fenced_interior opener reply = Some body"
    using that by (rule fenced_interior_decomp)
  show "\<exists>pre post. reply = pre @ x @ post \<and> CHR ''{'' \<notin> set pre
           \<and> startswith x ''{'' \<and> endswith x ''}'' \<and> depth x = 0
           \<and> (\<forall>m. 0 < m \<and> m < length x \<longrightarrow> 0 < depth (take m x))"
    if "strategy3 reply = Some x"
    using that by (rule strategy3_balanced)
  show "extract_json_from_response (''Here is the question: '' @ sample_json @ '' Good luck!'')
        = Some sample_json"
    by code_simp
qed

theorem extraction_ladder_witness:
  \<open>extract_json_from_response ''Sure: ```json {"a": 1} ``` or ``` {b} ``` or {c}'' = Some ''{"a": 1}''
   \<and> extract_json_from_response ''``` {"a": {1}} ``` or {c} ```json'' = Some ''{"a": {1}}''
   \<and> extract_json_from_response ''```python x ``` see {"a": "use {x} notation"} and {c}''
        = Some ''{"a": "use {x} notation"}''
   \<and> extract_json_from_response '' {{} '' = Some ''{{}''
   \<and> extract_json_from_response ''I cannot answer that.'' = None
   \<and> parse_response sample_env ''I cannot answer that.'' = Inr None
   \<and> depth ''{"a": "use {x} notation"}'' = 0
   \<and> \<not> py_in ''```'' '' {"a": 1} ''\<close>
proof -
  note t = extraction_ladder
  have f1: \<open>fenced_interior ''```json'' ''Sure: ```json {"a": 1} ``` or ``` {b} ``` or {c}''
      = Some '' {"a": 1} ''\<close>
    by code_simp
  have 6: \<open>\<not> py_in ''```'' '' {"a": 1} ''\<close>
    using t [where reply = \<open>''Sure: ```json {"a": 1} ``` or ``` {b} ``` or {c}''\<close>
        and opener = "''```json''" and body = \<open>'' {"a": 1} ''\<close>] f1 by blast
  have a1: \<open>strategy1 ''Sure: ```json {"a": 1} ``` or ``` {b} ``` or {c}'' = Some ''{"a": 1}''\<close>
    by code_simp
  have b1: \<open>strategy1 ''``` {"a": {1}} ``` or {c} ```json'' = None\<close> by code_simp
  have b2: \<open>strategy2 ''``` {"a": {1}} ``` or {c} ```json'' = Some ''{"a": {1}}''\<close> by code_simp
  have c1: \<open>strategy1 ''```python x ``` see {"a": "use {x} notation"} and {c}'' = None\<close>
    by code_simp
  have c2: \<open>strategy2 ''```python x ``` see {"a": "use {x} notation"} and {c}'' = None\<close>
    by code_simp
  have c3: \<open>strategy3 ''```python x ``` see {"a": "use {x} notation"} and {c}''
      = Some ''{"a": "use {x} notation"}''\<close>
    by code_simp
  have d1: "strategy1 '' {{} '' = None" by code_simp
  have d2: "strategy2 '' {{} '' = None" by code_simp
  have d3: "strategy3 '' {{} '' = None" by code_simp
  have d4: "strategy4 '' {{} '' = Some ''{{}''" by code_simp
  have e1: "strategy1 ''I cannot answer that.'' = None" by code_simp
  have e2: "strategy2 ''I cannot answer that.'' = None" by code_simp
  have e3: "strategy3 ''I cannot answer that.'' = None" by code_simp
  have e4: "strategy4 ''I cannot answer that.'' = None" by code_simp
  have 1: \<open>extract_json_from_response ''Sure: ```json {"a": 1} ``` or ``` {b} ``` or {c}''
      = Some ''{"a": 1}''\<close>
    using t [where reply = \<open>''Sure: ```json {"a": 1} ``` or ``` {b} ``` or {c}''\<close>
        and x = \<open>''{"a": 1}''\<close>] a1 by blast
  have 2: \<open>extract_json_from_response ''``` {"a": {1}} ``` or {c} ```json'' = Some ''{"a": {1}}''\<close>
    using t [where reply = \<open>''``` {"a": {1}} ``` or {c} ```json''\<close>
        and x = \<open>''{"a": {1}}''\<close>] b1 b2 by blast
  have 3: \<open>extract_json_from_response ''```python x ``` see {"a": "use {x} notation"} and {c}''
        = Some ''{"a": "use {x} notation"}''
      \<and> depth ''{"a": "use {x} notation"}'' = 0\<close>
    using t [where reply = \<open>''```python x ``` see {"a": "use {x} notation"} and {c}''\<close>
        and x = \<open>''{"a": "use {x} notation"}''\<close>] c1 c2 c3 by blast
  have 4: "extract_json_from_response '' {{} '' = Some ''{{}''"
    using t [where reply = "'' {{} ''" and x = "''{{}''"] d1 d2 d3 d4 by blast
  have 5: "extract_json_from_response ''I cannot answer that.'' = None
      \<and> parse_response sample_env ''I cannot answer that.'' = Inr None"
    using t [where reply = "''I cannot answer that.''" and env = sample_env] e1 e2 e3 e4 by blast
  from 1 2 3 4 5 6 show ?thesis by blast
qed

end
